theory Spec2Isabelle
  imports Main
begin

section \<open>Data model (backend/internal/models/models.go)\<close>

text \<open>
  Go's \<open>uint\<close> primary keys are natural numbers and Go's \<open>int\<close> counters are integers:
  every counter below is bounded by the number of nodes of a parsed document, far from
  the 64-bit limit. A \<open>time.Time\<close> is a clock reading; a nullable time
  (\<open>*time.Time\<close>, \<open>gorm.DeletedAt\<close>) is an option, \<open>None\<close> for NULL. The columns that
  gorm maintains by itself (\<open>CreatedAt\<close>, \<open>UpdatedAt\<close>) and the preloaded associations
  are read by none of the functions below and are left out of the row records; the
  schema of section "Schema" lists every field.
\<close>

type_synonym time = nat

record HeadingCounts =
  H1 :: int
  H2 :: int
  H3 :: int
  H4 :: int
  H5 :: int
  H6 :: int

record URL =
  URL_ID :: nat
  URL_URL :: string
  URL_Title :: string
  URL_HTMLVersion :: string
  URL_Status :: string
  URL_HasLoginForm :: bool
  URL_DeletedAt :: "time option"

record Crawl =
  Crawl_ID :: nat
  Crawl_URLID :: nat
  Crawl_Status :: string
  Crawl_StartedAt :: "time option"
  Crawl_CompletedAt :: "time option"
  Crawl_ErrorMessage :: string
  Crawl_InternalLinks :: int
  Crawl_ExternalLinks :: int
  Crawl_BrokenLinks :: int
  Crawl_HeadingCounts :: string

record Link =
  Link_ID :: nat
  Link_URLID :: nat
  Link_CrawlID :: nat
  LinkURL :: string
  LinkText :: string
  LinkType :: string
  StatusCode :: int
  IsAccessible :: bool

text \<open>\<open>CrawlData\<close> of crawler_service.go.\<close>

record CrawlData =
  Title :: string
  HTMLVersion :: string
  HasLoginForm :: bool
  HeadingCounts :: HeadingCounts
  InternalLinks :: int
  ExternalLinks :: int
  BrokenLinks :: int
  Links :: "Link list"

section \<open>The libraries and the outside world\<close>

text \<open>
  A parsed document (\<open>html.Node\<close> of golang.org/x/net/html) is a finite tree: the chain
  \<open>FirstChild\<close>, \<open>NextSibling\<close>, ... of a node is the list of its children.
\<close>

datatype NodeType =
  ErrorNode | TextNode | DocumentNode | ElementNode | CommentNode | DoctypeNode | RawNode

record Attribute =
  Namespace :: string
  Key :: string
  Val :: string

datatype Node = Node (Node_Type: NodeType) (Data: string) (Attr: "Attribute list")
  (Children: "Node list")

text \<open>The fields of \<open>url.URL\<close>; the crawler reads \<open>Host\<close> only.\<close>

record url_URL =
  Scheme :: string
  Host :: string
  Path :: string
  RawQuery :: string
  Fragment :: string

datatype Request = GET string | HEAD string

record Response =
  Resp_StatusCode :: int
  Resp_Status :: string
  Resp_Body :: string

text \<open>
  The functions of Go's libraries that the crawler calls, and the network, are
  parameters: every theorem holds for whatever they compute. A Go \<open>error\<close> is its
  message; a call that returns \<open>(x, err)\<close> returns \<open>Inl\<close> of the message or \<open>Inr\<close> of the
  result. What the network and the clock answer may depend on the requests made so far.
\<close>

record env =
  url_Parse :: "string \<Rightarrow> string + url_URL"
  url_ResolveReference :: "url_URL \<Rightarrow> url_URL \<Rightarrow> url_URL"
  url_String :: "url_URL \<Rightarrow> string"
  strings_TrimSpace :: "string \<Rightarrow> string"
  strings_ToLower :: "string \<Rightarrow> string"
  html_Parse :: "string \<Rightarrow> string + Node"
  http_Get :: "Request list \<Rightarrow> string \<Rightarrow> string + Response"
  client_Head :: "Request list \<Rightarrow> string \<Rightarrow> string + Response"
  time_Now :: "Request list \<Rightarrow> time"

section \<open>Link extraction (backend/internal/services/crawler_service.go)\<close>

text \<open>The loop of \<open>processLink\<close> over \<open>n.Attr\<close>: the value of the first \<open>href\<close>.\<close>

fun href_of :: "Attribute list \<Rightarrow> string" where
  "href_of [] = []"
| "href_of (attr # attrs) = (if Key attr = ''href'' then Val attr else href_of attrs)"

definition linkText_of :: "env \<Rightarrow> Node \<Rightarrow> string" where
  "linkText_of e n =
     (case Children n of
        [] \<Rightarrow> []
      | c # _ \<Rightarrow> if Node_Type c = TextNode then strings_TrimSpace e (Data c) else [])"

definition processLink :: "env \<Rightarrow> Node \<Rightarrow> CrawlData \<Rightarrow> url_URL \<Rightarrow> CrawlData" where
  "processLink e n data baseURL =
     (let href = href_of (Attr n) in
      if href = [] then data
      else
        let linkText = linkText_of e n in
        case url_Parse e href of
          Inl err \<Rightarrow> data
        | Inr linkURL \<Rightarrow>
            let resolvedURL = url_ResolveReference e baseURL linkURL;
                linkType = (if Host resolvedURL = Host baseURL then ''internal''
                            else ''external'');
                link = \<lparr>Link_ID = 0, Link_URLID = 0, Link_CrawlID = 0,
                        LinkURL = url_String e resolvedURL, LinkText = linkText,
                        LinkType = linkType, StatusCode = 0, IsAccessible = True\<rparr>;
                data1 = data\<lparr>Links := Links data @ [link]\<rparr>
            in if linkType = ''internal''
               then data1\<lparr>InternalLinks := InternalLinks data1 + 1\<rparr>
               else data1\<lparr>ExternalLinks := ExternalLinks data1 + 1\<rparr>)"

text \<open>\<open>renderNode\<close> and \<open>nodeToString\<close>: the markup of a subtree.\<close>

definition render_attr :: "Attribute \<Rightarrow> string" where
  "render_attr attr = '' '' @ Key attr @ [CHR ''='', CHR 0x22] @ Val attr @ [CHR 0x22]"

fun renderNode :: "Node \<Rightarrow> string" and renderNodes :: "Node list \<Rightarrow> string" where
  "renderNode (Node ty d attrs cs) =
     (if ty = ElementNode
      then ''<'' @ d @ concat (map render_attr attrs) @ ''>'' @ renderNodes cs
           @ ''</'' @ d @ ''>''
      else if ty = TextNode then d
      else [])"
| "renderNodes [] = []"
| "renderNodes (c # cs) = renderNode c @ renderNodes cs"

definition nodeToString :: "Node \<Rightarrow> string" where
  "nodeToString n = renderNode n"

text \<open>\<open>strings.Contains\<close>: the second string occurs in the first.\<close>

fun strings_Contains :: "string \<Rightarrow> string \<Rightarrow> bool" where
  "strings_Contains [] sub = (sub = [])"
| "strings_Contains (c # s) sub =
     (take (length sub) (c # s) = sub \<or> strings_Contains s sub)"

definition loginIndicators :: "string list" where
  "loginIndicators = [''login'', ''signin'', ''email'', ''username'', ''password'']"

definition checkLoginForm :: "env \<Rightarrow> Node \<Rightarrow> CrawlData \<Rightarrow> CrawlData" where
  "checkLoginForm e n data =
     (let lowerHTML = strings_ToLower e (nodeToString n) in
      if list_ex (\<lambda>indicator. strings_Contains lowerHTML indicator) loginIndicators
      then data\<lparr>HasLoginForm := True\<rparr>
      else data)"

definition detectHTMLVersion :: "Node \<Rightarrow> CrawlData \<Rightarrow> CrawlData" where
  "detectHTMLVersion n data = data\<lparr>HTMLVersion := ''HTML5''\<rparr>"

text \<open>
  The body of \<open>traverseHTML\<close> before its loop over the children: what the traversal does
  at one node.
\<close>

definition visitNode :: "env \<Rightarrow> Node \<Rightarrow> CrawlData \<Rightarrow> url_URL \<Rightarrow> CrawlData" where
  "visitNode e n data baseURL =
     (if Node_Type n = ElementNode then
        if Data n = ''title'' then
          (case Children n of
             [] \<Rightarrow> data
           | c # _ \<Rightarrow> if Title data = [] then data\<lparr>Title := strings_TrimSpace e (Data c)\<rparr>
                      else data)
        else if Data n = ''h1'' then
          data\<lparr>HeadingCounts := (HeadingCounts data)\<lparr>H1 := H1 (HeadingCounts data) + 1\<rparr>\<rparr>
        else if Data n = ''h2'' then
          data\<lparr>HeadingCounts := (HeadingCounts data)\<lparr>H2 := H2 (HeadingCounts data) + 1\<rparr>\<rparr>
        else if Data n = ''h3'' then
          data\<lparr>HeadingCounts := (HeadingCounts data)\<lparr>H3 := H3 (HeadingCounts data) + 1\<rparr>\<rparr>
        else if Data n = ''h4'' then
          data\<lparr>HeadingCounts := (HeadingCounts data)\<lparr>H4 := H4 (HeadingCounts data) + 1\<rparr>\<rparr>
        else if Data n = ''h5'' then
          data\<lparr>HeadingCounts := (HeadingCounts data)\<lparr>H5 := H5 (HeadingCounts data) + 1\<rparr>\<rparr>
        else if Data n = ''h6'' then
          data\<lparr>HeadingCounts := (HeadingCounts data)\<lparr>H6 := H6 (HeadingCounts data) + 1\<rparr>\<rparr>
        else if Data n = ''a'' then processLink e n data baseURL
        else if Data n = ''form'' then checkLoginForm e n data
        else if Data n = ''html'' then detectHTMLVersion n data
        else data
      else data)"

fun traverseHTML :: "env \<Rightarrow> Node \<Rightarrow> CrawlData \<Rightarrow> url_URL \<Rightarrow> CrawlData"
  and traverseChildren :: "env \<Rightarrow> Node list \<Rightarrow> CrawlData \<Rightarrow> url_URL \<Rightarrow> CrawlData" where
  "traverseHTML e (Node ty d attrs cs) data baseURL =
     traverseChildren e cs (visitNode e (Node ty d attrs cs) data baseURL) baseURL"
| "traverseChildren e [] data baseURL = data"
| "traverseChildren e (c # cs) data baseURL =
     traverseChildren e cs (traverseHTML e c data baseURL) baseURL"

section \<open>Link accessibility\<close>

text \<open>
  \<open>checkLinkAccessibility\<close>: \<open>checkLink\<close> is the body of its loop, for one link, and
  \<open>checkLinks\<close> the loop over \<open>data.Links\<close>, threading the count of broken links and the
  log of requests.
\<close>

definition checkLink :: "env \<Rightarrow> Link \<Rightarrow> int \<Rightarrow> Request list \<Rightarrow> Link \<times> int \<times> Request list"
  where
  "checkLink e link broken log =
     (if LinkType link = ''internal'' then (link\<lparr>StatusCode := 200\<rparr>, broken, log)
      else
        case client_Head e log (LinkURL link) of
          Inl err \<Rightarrow>
            (link\<lparr>StatusCode := 0, IsAccessible := False\<rparr>, broken + 1,
             log @ [HEAD (LinkURL link)])
        | Inr resp \<Rightarrow>
            if Resp_StatusCode resp \<ge> 400
            then (link\<lparr>StatusCode := Resp_StatusCode resp, IsAccessible := False\<rparr>,
                  broken + 1, log @ [HEAD (LinkURL link)])
            else (link\<lparr>StatusCode := Resp_StatusCode resp\<rparr>, broken,
                  log @ [HEAD (LinkURL link)]))"

fun checkLinks :: "env \<Rightarrow> Link list \<Rightarrow> int \<Rightarrow> Request list \<Rightarrow> Link list \<times> int \<times> Request list"
  where
  "checkLinks e [] broken log = ([], broken, log)"
| "checkLinks e (link # ls) broken log =
     (case checkLink e link broken log of
        (link', broken1, log1) \<Rightarrow>
          (case checkLinks e ls broken1 log1 of
             (ls', broken2, log2) \<Rightarrow> (link' # ls', broken2, log2)))"

definition checkLinkAccessibility ::
  "env \<Rightarrow> CrawlData \<Rightarrow> Request list \<Rightarrow> CrawlData \<times> Request list" where
  "checkLinkAccessibility e data log =
     (case checkLinks e (Links data) (BrokenLinks data) log of
        (ls', broken', log') \<Rightarrow> (data\<lparr>Links := ls', BrokenLinks := broken'\<rparr>, log'))"

definition empty_HeadingCounts :: HeadingCounts where
  "empty_HeadingCounts = \<lparr>H1 = 0, H2 = 0, H3 = 0, H4 = 0, H5 = 0, H6 = 0\<rparr>"

definition new_CrawlData :: CrawlData where
  "new_CrawlData =
     \<lparr>Title = [], HTMLVersion = ''HTML5'', HasLoginForm = False,
      HeadingCounts = empty_HeadingCounts, InternalLinks = 0, ExternalLinks = 0,
      BrokenLinks = 0, Links = []\<rparr>"

definition extractData ::
  "env \<Rightarrow> Node \<Rightarrow> string \<Rightarrow> Request list \<Rightarrow> CrawlData \<times> Request list" where
  "extractData e doc baseURL log =
     (case url_Parse e baseURL of
        Inl err \<Rightarrow> (new_CrawlData, log)
      | Inr parsedBaseURL \<Rightarrow>
          checkLinkAccessibility e (traverseHTML e doc new_CrawlData parsedBaseURL) log)"

section \<open>The relational store\<close>

text \<open>
  The database is the three tables the crawler writes, each a list of rows in insertion
  order. It is a store that answers every statement: the only failures it has are the
  ones the statement itself can cause (no such row, a key that exists already). The
  loss of the connection, a column too short for a value and the other failures of a
  real server are outside this model, and so is every interleaving with another
  request: each operation below runs alone.
\<close>

record DB =
  tbl_urls :: "URL list"
  tbl_crawls :: "Crawl list"
  tbl_links :: "Link list"

record World =
  db :: DB
  requests :: "Request list"

text \<open>AUTO_INCREMENT: the next key is above every key of the table.\<close>

definition next_id :: "nat list \<Rightarrow> nat" where
  "next_id ids = Suc (fold max ids 0)"

text \<open>
  gorm's \<open>Create\<close>: a row whose primary key is zero gets the next key; a row that brings
  its key is inserted under it, unless the key exists.
\<close>

definition create_row ::
  "('a \<Rightarrow> nat) \<Rightarrow> (nat \<Rightarrow> 'a \<Rightarrow> 'a) \<Rightarrow> 'a \<Rightarrow> 'a list \<Rightarrow> string + ('a list \<times> 'a)" where
  "create_row pk set_pk x rows =
     (if pk x = 0 then
        (let x' = set_pk (next_id (map pk rows)) x in Inr (rows @ [x'], x'))
      else if pk x \<in> set (map pk rows) then Inl ''Duplicate entry for key PRIMARY''
      else Inr (rows @ [x], x))"

text \<open>gorm's \<open>Save\<close>: the row with the same primary key is replaced, or the row is inserted.\<close>

fun save_row :: "('a \<Rightarrow> nat) \<Rightarrow> 'a \<Rightarrow> 'a list \<Rightarrow> 'a list" where
  "save_row pk x [] = [x]"
| "save_row pk x (y # ys) = (if pk y = pk x then x # ys else y # save_row pk x ys)"

text \<open>\<open>db.First(&urlRecord, urlID)\<close>: the row with this key that is not soft-deleted.\<close>

definition db_First_URL :: "DB \<Rightarrow> nat \<Rightarrow> URL option" where
  "db_First_URL d urlID =
     find (\<lambda>r. URL_ID r = urlID \<and> URL_DeletedAt r = None) (tbl_urls d)"

definition db_Create_Crawl :: "DB \<Rightarrow> Crawl \<Rightarrow> string + (DB \<times> Crawl)" where
  "db_Create_Crawl d crawl =
     (case create_row Crawl_ID (\<lambda>i c. c\<lparr>Crawl_ID := i\<rparr>) crawl (tbl_crawls d) of
        Inl err \<Rightarrow> Inl err
      | Inr (rows, crawl') \<Rightarrow> Inr (d\<lparr>tbl_crawls := rows\<rparr>, crawl'))"

text \<open>
  The field \<open>IsAccessible\<close> of \<open>Link\<close> carries the tag \<open>default:true\<close>, and gorm's \<open>Create\<close>
  writes the default of a field whose value is the zero value of its type: a link whose
  flag is false is stored as accessible. The other \<open>default\<close> tags of the models meet no
  value of the code that they would change: the statuses are set before every \<open>Create\<close>,
  and the default of each other field is its zero value.
\<close>

definition gorm_default_IsAccessible :: "Link \<Rightarrow> Link" where
  "gorm_default_IsAccessible link =
     (if IsAccessible link then link else link\<lparr>IsAccessible := True\<rparr>)"

text \<open>\<open>s.db.Create(&link)\<close> in \<open>performCrawl\<close>, which drops the error.\<close>

definition db_Create_Link :: "DB \<Rightarrow> Link \<Rightarrow> DB" where
  "db_Create_Link d link =
     (case create_row Link_ID (\<lambda>i l. l\<lparr>Link_ID := i\<rparr>) (gorm_default_IsAccessible link)
             (tbl_links d) of
        Inl err \<Rightarrow> d
      | Inr (rows, link') \<Rightarrow> d\<lparr>tbl_links := rows\<rparr>)"

definition db_Save_Crawl :: "DB \<Rightarrow> Crawl \<Rightarrow> DB" where
  "db_Save_Crawl d crawl = d\<lparr>tbl_crawls := save_row Crawl_ID crawl (tbl_crawls d)\<rparr>"

definition db_Save_URL :: "DB \<Rightarrow> URL \<Rightarrow> DB" where
  "db_Save_URL d urlRecord = d\<lparr>tbl_urls := save_row URL_ID urlRecord (tbl_urls d)\<rparr>"

text \<open>
  \<open>s.db.Model(&urlRecord).Update("status", v)\<close>: the column of the row with the record's
  key that is not soft-deleted, and the field of the record.
\<close>

definition db_Update_URL_status :: "DB \<Rightarrow> URL \<Rightarrow> string \<Rightarrow> DB \<times> URL" where
  "db_Update_URL_status d urlRecord v =
     (d\<lparr>tbl_urls :=
          map (\<lambda>r. if URL_ID r = URL_ID urlRecord \<and> URL_DeletedAt r = None
                    then r\<lparr>URL_Status := v\<rparr> else r) (tbl_urls d)\<rparr>,
      urlRecord\<lparr>URL_Status := v\<rparr>)"

section \<open>The crawl (crawler_service.go: StartCrawl, performCrawl)\<close>

text \<open>\<open>%d\<close> of \<open>fmt.Sprintf\<close>: an integer in decimal.\<close>

fun digits_of :: "nat \<Rightarrow> string" where
  "digits_of n =
     (if n < 10 then [char_of (48 + n)]
      else digits_of (n div 10) @ [char_of (48 + n mod 10)])"

definition itoa :: "int \<Rightarrow> string" where
  "itoa i = (if i < 0 then CHR ''-'' # digits_of (nat (- i)) else digits_of (nat i))"

text \<open>
  \<open>json.Marshal(data.HeadingCounts)\<close>: the six fields under their json tags, in the
  order of the struct.
\<close>

definition json_field :: "string \<Rightarrow> int \<Rightarrow> string" where
  "json_field k v = [CHR 0x22] @ k @ [CHR 0x22] @ '':'' @ itoa v"

definition json_Marshal_HeadingCounts :: "HeadingCounts \<Rightarrow> string" where
  "json_Marshal_HeadingCounts h =
     ''{'' @ json_field ''h1'' (H1 h) @ '','' @ json_field ''h2'' (H2 h) @ '',''
     @ json_field ''h3'' (H3 h) @ '','' @ json_field ''h4'' (H4 h) @ '',''
     @ json_field ''h5'' (H5 h) @ '','' @ json_field ''h6'' (H6 h) @ ''}''"

text \<open>
  The deferred function of \<open>performCrawl\<close>, which runs on every return: it stamps and
  saves the crawl, copies the crawl's status to the URL record and saves that.
\<close>

definition performCrawl_deferred :: "env \<Rightarrow> URL \<Rightarrow> Crawl \<Rightarrow> World \<Rightarrow> URL \<times> Crawl \<times> World"
  where
  "performCrawl_deferred e urlRecord crawl w =
     (let now = time_Now e (requests w);
          crawl1 = crawl\<lparr>Crawl_CompletedAt := Some now\<rparr>;
          db1 = db_Save_Crawl (db w) crawl1;
          urlRecord1 = urlRecord\<lparr>URL_Status := Crawl_Status crawl1\<rparr>;
          db2 = db_Save_URL db1 urlRecord1
      in (urlRecord1, crawl1, w\<lparr>db := db2\<rparr>))"

text \<open>The loop of \<open>performCrawl\<close> that saves the links.\<close>

fun save_links :: "nat \<Rightarrow> nat \<Rightarrow> Link list \<Rightarrow> DB \<Rightarrow> DB" where
  "save_links urlID crawlID [] d = d"
| "save_links urlID crawlID (link # ls) d =
     save_links urlID crawlID ls
       (db_Create_Link d (link\<lparr>Link_URLID := urlID, Link_CrawlID := crawlID\<rparr>))"

text \<open>
  \<open>performCrawl\<close> works on the two records through pointers: the model returns them with
  the world.
\<close>

definition performCrawl :: "env \<Rightarrow> URL \<Rightarrow> Crawl \<Rightarrow> World \<Rightarrow> URL \<times> Crawl \<times> World" where
  "performCrawl e urlRecord crawl w =
     (let w1 = w\<lparr>requests := requests w @ [GET (URL_URL urlRecord)]\<rparr> in
      case http_Get e (requests w) (URL_URL urlRecord) of
        Inl err \<Rightarrow>
          performCrawl_deferred e urlRecord
            (crawl\<lparr>Crawl_Status := ''error'',
                   Crawl_ErrorMessage := ''HTTP request failed: '' @ err\<rparr>) w1
      | Inr resp \<Rightarrow>
          if Resp_StatusCode resp \<ge> 400 then
            performCrawl_deferred e urlRecord
              (crawl\<lparr>Crawl_Status := ''error'',
                     Crawl_ErrorMessage :=
                       ''HTTP '' @ itoa (Resp_StatusCode resp) @ '': '' @ Resp_Status resp\<rparr>) w1
          else
            case html_Parse e (Resp_Body resp) of
              Inl err \<Rightarrow>
                performCrawl_deferred e urlRecord
                  (crawl\<lparr>Crawl_Status := ''error'',
                         Crawl_ErrorMessage := ''HTML parsing failed: '' @ err\<rparr>) w1
            | Inr doc \<Rightarrow>
                (case extractData e doc (URL_URL urlRecord) (requests w1) of
                   (data, log) \<Rightarrow>
                     let urlRecord1 = urlRecord\<lparr>URL_Title := Title data,
                                                URL_HTMLVersion := HTMLVersion data,
                                                URL_HasLoginForm := HasLoginForm data\<rparr>;
                         crawl1 = crawl\<lparr>Crawl_InternalLinks := InternalLinks data,
                                        Crawl_ExternalLinks := ExternalLinks data,
                                        Crawl_BrokenLinks := BrokenLinks data,
                                        Crawl_HeadingCounts :=
                                          json_Marshal_HeadingCounts (HeadingCounts data),
                                        Crawl_Status := ''completed''\<rparr>;
                         db1 = save_links (URL_ID urlRecord1) (Crawl_ID crawl1) (Links data)
                                 (db w1)
                     in performCrawl_deferred e urlRecord1 crawl1
                          (w1\<lparr>db := db1, requests := log\<rparr>)))"

definition StartCrawl :: "env \<Rightarrow> nat \<Rightarrow> World \<Rightarrow> World" where
  "StartCrawl e urlID w =
     (case db_First_URL (db w) urlID of
        None \<Rightarrow> w
      | Some urlRecord \<Rightarrow>
          let crawl = \<lparr>Crawl_ID = 0, Crawl_URLID = urlID, Crawl_Status = ''running'',
                       Crawl_StartedAt = Some (time_Now e (requests w)),
                       Crawl_CompletedAt = None, Crawl_ErrorMessage = [],
                       Crawl_InternalLinks = 0, Crawl_ExternalLinks = 0,
                       Crawl_BrokenLinks = 0, Crawl_HeadingCounts = []\<rparr>
          in case db_Create_Crawl (db w) crawl of
               Inl err \<Rightarrow> w
             | Inr (db1, crawl1) \<Rightarrow>
                 (case db_Update_URL_status db1 urlRecord ''running'' of
                    (db2, urlRecord1) \<Rightarrow>
                      (case performCrawl e urlRecord1 crawl1 (w\<lparr>db := db2\<rparr>) of
                         (urlRecord2, crawl2, w') \<Rightarrow> w')))"

section \<open>URL records (backend/internal/services/url_service.go)\<close>

text \<open>
  The unique index on \<open>urls.url\<close> covers soft-deleted rows too. A \<open>Create\<close> that meets it
  fails with the driver's message: the repository runs on MySQL
  (database.Initialize) and tests on SQLite.
\<close>

datatype Driver = MySQL | SQLite

definition duplicate_error :: "Driver \<Rightarrow> string \<Rightarrow> string" where
  "duplicate_error drv url =
     (case drv of
        MySQL \<Rightarrow> ''Error 1062 (23000): Duplicate entry '' @ [CHR 0x27] @ url @ [CHR 0x27]
                 @ '' for key '' @ [CHR 0x27] @ ''urls.url'' @ [CHR 0x27]
      | SQLite \<Rightarrow> ''UNIQUE constraint failed: urls.url'')"

definition db_Create_URL :: "Driver \<Rightarrow> DB \<Rightarrow> URL \<Rightarrow> string + (DB \<times> URL)" where
  "db_Create_URL drv d urlRecord =
     (if list_ex (\<lambda>r. URL_URL r = URL_URL urlRecord) (tbl_urls d)
      then Inl (duplicate_error drv (URL_URL urlRecord))
      else
        case create_row URL_ID (\<lambda>i r. r\<lparr>URL_ID := i\<rparr>) urlRecord (tbl_urls d) of
          Inl err \<Rightarrow> Inl err
        | Inr (rows, urlRecord') \<Rightarrow> Inr (d\<lparr>tbl_urls := rows\<rparr>, urlRecord'))"

text \<open>
  \<open>db.Unscoped().Where("url = ?", url).First(&existingURL)\<close>: the row with this URL,
  soft-deleted or not.
\<close>

definition db_Unscoped_First_by_url :: "DB \<Rightarrow> string \<Rightarrow> URL option" where
  "db_Unscoped_First_by_url d url = find (\<lambda>r. URL_URL r = url) (tbl_urls d)"

text \<open>\<open>go s.crawlerService.StartCrawl(id)\<close>: a call handed to a new goroutine.\<close>

datatype Task = Go_StartCrawl nat

text \<open>
  \<open>CreateURL\<close> returns the record or the error, the database, and the goroutines it
  started. \<open>Save\<close> cannot fail in this store, so the return on \<open>updateErr\<close> has no branch.
\<close>

definition CreateURL :: "Driver \<Rightarrow> string \<Rightarrow> DB \<Rightarrow> (string + URL) \<times> DB \<times> Task list" where
  "CreateURL drv url d =
     (let urlRecord = \<lparr>URL_ID = 0, URL_URL = url, URL_Title = [], URL_HTMLVersion = [],
                        URL_Status = ''pending'', URL_HasLoginForm = False,
                        URL_DeletedAt = None\<rparr>
      in case db_Create_URL drv d urlRecord of
           Inr (d1, urlRecord1) \<Rightarrow> (Inr urlRecord1, d1, [Go_StartCrawl (URL_ID urlRecord1)])
         | Inl err \<Rightarrow>
             if strings_Contains err ''Duplicate entry''
                \<or> strings_Contains err ''UNIQUE constraint failed''
             then
               (case db_Unscoped_First_by_url d url of
                  None \<Rightarrow>
                    (Inl (''failed to fetch existing URL after duplicate error: ''
                          @ ''record not found''), d, [])
                | Some existingURL \<Rightarrow>
                    let existingURL1 =
                          (if URL_DeletedAt existingURL \<noteq> None
                           then existingURL\<lparr>URL_DeletedAt := None\<rparr> else existingURL);
                        existingURL2 = existingURL1\<lparr>URL_Status := ''pending''\<rparr>;
                        d1 = db_Save_URL d existingURL2
                    in (Inr existingURL2, d1, [Go_StartCrawl (URL_ID existingURL2)]))
             else (Inl (''failed to create URL record: '' @ err), d, []))"

text \<open>
  \<open>DeleteURL\<close>: gorm's \<open>Delete\<close> on a model with a \<open>DeletedAt\<close> field stamps the rows that
  are not deleted yet and removes nothing.
\<close>

definition DeleteURL :: "nat \<Rightarrow> time \<Rightarrow> DB \<Rightarrow> DB" where
  "DeleteURL urlID now d =
     d\<lparr>tbl_urls :=
         map (\<lambda>r. if URL_ID r = urlID \<and> URL_DeletedAt r = None
                   then r\<lparr>URL_DeletedAt := Some now\<rparr> else r) (tbl_urls d)\<rparr>"

section \<open>Listing parameters (backend/internal/handlers/url_handler.go: GetURLs)\<close>

text \<open>
  The query string is a map from a key to its first value. \<open>strconv.Atoi\<close> is a
  parameter: \<open>None\<close> when it returns an error.
\<close>

definition DefaultQuery :: "(string \<rightharpoonup> string) \<Rightarrow> string \<Rightarrow> string \<Rightarrow> string" where
  "DefaultQuery q k defaultValue = (case q k of Some v \<Rightarrow> v | None \<Rightarrow> defaultValue)"

definition Query :: "(string \<rightharpoonup> string) \<Rightarrow> string \<Rightarrow> string" where
  "Query q k = (case q k of Some v \<Rightarrow> v | None \<Rightarrow> [])"

definition validSortColumns :: "string list" where
  "validSortColumns =
     [''url'', ''title'', ''status'', ''html_version'', ''created_at'', ''updated_at'']"

record ListParams =
  p_limit :: int
  p_offset :: int
  p_search :: string
  p_status :: string
  p_sortBy :: string
  p_sortOrder :: string

text \<open>What the handler passes to \<open>urlService.GetURLs\<close>.\<close>

definition GetURLs_params :: "(string \<Rightarrow> int option) \<Rightarrow> (string \<rightharpoonup> string) \<Rightarrow> ListParams" where
  "GetURLs_params atoi q =
     (let limitStr = DefaultQuery q ''limit'' ''20'';
          offsetStr = DefaultQuery q ''offset'' ''0'';
          search = Query q ''search'';
          status = Query q ''status'';
          sortBy = DefaultQuery q ''sortBy'' ''updated_at'';
          sortOrder = DefaultQuery q ''sortOrder'' ''desc'';
          limit = (case atoi limitStr of
                     None \<Rightarrow> 20
                   | Some n \<Rightarrow> if n \<le> 0 \<or> n > 100 then 20 else n);
          offset = (case atoi offsetStr of
                      None \<Rightarrow> 0
                    | Some n \<Rightarrow> if n < 0 then 0 else n);
          sortBy1 = (if sortBy \<in> set validSortColumns then sortBy else ''updated_at'');
          sortOrder1 = (if sortOrder \<noteq> ''asc'' \<and> sortOrder \<noteq> ''desc'' then ''desc''
                        else sortOrder)
      in \<lparr>p_limit = limit, p_offset = offset, p_search = search, p_status = status,
          p_sortBy = sortBy1, p_sortOrder = sortOrder1\<rparr>)"

text \<open>
  \<open>strconv.Atoi\<close> on a 64-bit platform, for the examples: an optional sign, then
  decimal digits only, and a value that fits an \<open>int\<close>.
\<close>

definition is_digit :: "char \<Rightarrow> bool" where
  "is_digit c = (48 \<le> (of_char c :: nat) \<and> (of_char c :: nat) \<le> 57)"

definition digits_value :: "string \<Rightarrow> int" where
  "digits_value s = foldl (\<lambda>n c. n * 10 + (int (of_char c) - 48)) 0 s"

definition strconv_Atoi :: "string \<Rightarrow> int option" where
  "strconv_Atoi s =
     (let neg = (take 1 s = ''-'');
          ds = (if take 1 s = ''-'' \<or> take 1 s = ''+'' then drop 1 s else s)
      in if ds = [] \<or> \<not> list_all is_digit ds then None
         else
           let v = (if neg then - digits_value ds else digits_value ds)
           in if - (2 ^ 63) \<le> v \<and> v \<le> 2 ^ 63 - 1 then Some v else None)"

section \<open>Schema\<close>

text \<open>
  The four models that \<open>AutoMigrate\<close> turns into the tables users, urls, crawls and links,
  each as the list of its fields with their Go types, and the columns of the four
  \<open>CREATE TABLE\<close> statements of the migrations.
\<close>

datatype Table = T_users | T_urls | T_crawls | T_links

datatype GoType =
  T_uint | T_int | T_string | T_bool | T_Time | T_TimePtr | T_DeletedAt
  | T_Crawls | T_Links | T_URL | T_Crawl

definition model_fields :: "Table \<Rightarrow> (string \<times> GoType) list" where
  "model_fields t =
     (case t of
        T_users \<Rightarrow>
          [(''ID'', T_uint), (''Username'', T_string), (''Email'', T_string),
           (''Password'', T_string), (''FirstName'', T_string), (''LastName'', T_string),
           (''IsActive'', T_bool), (''IsAdmin'', T_bool), (''CreatedAt'', T_Time),
           (''UpdatedAt'', T_Time), (''DeletedAt'', T_DeletedAt)]
      | T_urls \<Rightarrow>
          [(''ID'', T_uint), (''URL'', T_string), (''Title'', T_string),
           (''HTMLVersion'', T_string), (''Status'', T_string), (''HasLoginForm'', T_bool),
           (''CreatedAt'', T_Time), (''UpdatedAt'', T_Time), (''DeletedAt'', T_DeletedAt),
           (''Crawls'', T_Crawls), (''Links'', T_Links)]
      | T_crawls \<Rightarrow>
          [(''ID'', T_uint), (''URLID'', T_uint), (''Status'', T_string),
           (''StartedAt'', T_TimePtr), (''CompletedAt'', T_TimePtr),
           (''ErrorMessage'', T_string), (''InternalLinks'', T_int),
           (''ExternalLinks'', T_int), (''BrokenLinks'', T_int),
           (''HeadingCounts'', T_string), (''CreatedAt'', T_Time), (''UpdatedAt'', T_Time),
           (''URL'', T_URL), (''Links'', T_Links)]
      | T_links \<Rightarrow>
          [(''ID'', T_uint), (''URLID'', T_uint), (''CrawlID'', T_uint),
           (''LinkURL'', T_string), (''LinkText'', T_string), (''LinkType'', T_string),
           (''StatusCode'', T_int), (''IsAccessible'', T_bool), (''CreatedAt'', T_Time),
           (''URL'', T_URL), (''Crawl'', T_Crawl)])"

definition migration_columns :: "Table \<Rightarrow> string list" where
  "migration_columns t =
     (case t of
        T_users \<Rightarrow>
          [''id'', ''username'', ''email'', ''password'', ''first_name'', ''last_name'',
           ''is_active'', ''is_admin'', ''created_at'', ''updated_at'', ''deleted_at'']
      | T_urls \<Rightarrow>
          [''id'', ''url'', ''title'', ''html_version'', ''status'', ''has_login_form'',
           ''created_at'', ''updated_at'', ''deleted_at'']
      | T_crawls \<Rightarrow>
          [''id'', ''url_id'', ''status'', ''started_at'', ''completed_at'', ''error_message'',
           ''internal_links'', ''external_links'', ''broken_links'', ''heading_counts'',
           ''created_at'', ''updated_at'']
      | T_links \<Rightarrow>
          [''id'', ''url_id'', ''crawl_id'', ''link_url'', ''link_text'', ''link_type'',
           ''status_code'', ''is_accessible'', ''created_at''])"

definition has_DeletedAt :: "Table \<Rightarrow> bool" where
  "has_DeletedAt t = list_ex (\<lambda>f. snd f = T_DeletedAt) (model_fields t)"

definition has_deleted_at_column :: "Table \<Rightarrow> bool" where
  "has_deleted_at_column t = (''deleted_at'' \<in> set (migration_columns t))"

text \<open>
  gorm's \<open>Delete\<close>: a model with a \<open>gorm.DeletedAt\<close> field is soft-deleted (the row stays,
  stamped); any other model's rows are removed by a \<open>DELETE\<close> statement.
\<close>

datatype Deletion = SoftDelete | PhysicalDelete

definition gorm_Delete :: "Table \<Rightarrow> Deletion" where
  "gorm_Delete t = (if has_DeletedAt t then SoftDelete else PhysicalDelete)"

section \<open>Positions of a document\<close>

text \<open>
  A position in a tree is the list of child indices that leads to a node from the root.
  \<open>positions\<close> lists the positions in document order and \<open>preorder\<close> the nodes.
\<close>

fun node_at :: "Node \<Rightarrow> nat list \<Rightarrow> Node option" where
  "node_at n [] = Some n"
| "node_at n (i # p) =
     (if i < length (Children n) then node_at (Children n ! i) p else None)"

fun positions :: "Node \<Rightarrow> nat list list"
  and positions_from :: "nat \<Rightarrow> Node list \<Rightarrow> nat list list" where
  "positions (Node ty d attrs cs) = [] # positions_from 0 cs"
| "positions_from i [] = []"
| "positions_from i (c # cs) = map ((#) i) (positions c) @ positions_from (Suc i) cs"

fun preorder :: "Node \<Rightarrow> Node list" and preorders :: "Node list \<Rightarrow> Node list" where
  "preorder (Node ty d attrs cs) = Node ty d attrs cs # preorders cs"
| "preorders [] = []"
| "preorders (c # cs) = preorder c @ preorders cs"

definition is_element :: "string \<Rightarrow> Node \<Rightarrow> bool" where
  "is_element tag n = (Node_Type n = ElementNode \<and> Data n = tag)"

section \<open>Outcomes of a crawl\<close>

text \<open>
  The fetch fails when \<open>http.Get\<close> returns an error, the response has a status code of
  400 or more, or \<open>html.Parse\<close> returns an error. \<open>extracted_links\<close> are \<open>data.Links\<close> of
  \<open>performCrawl\<close>: the links that \<open>extractData\<close> returns on the path that reaches it, and
  none on the three error returns. \<open>new_links\<close> are the rows that a run added to the links
  table.
\<close>

definition fetch_failed :: "env \<Rightarrow> URL \<Rightarrow> World \<Rightarrow> bool" where
  "fetch_failed e urlRecord w =
     (case http_Get e (requests w) (URL_URL urlRecord) of
        Inl err \<Rightarrow> True
      | Inr resp \<Rightarrow> Resp_StatusCode resp \<ge> 400 \<or> isl (html_Parse e (Resp_Body resp)))"

definition extracted_links :: "env \<Rightarrow> URL \<Rightarrow> World \<Rightarrow> Link list" where
  "extracted_links e urlRecord w =
     (case http_Get e (requests w) (URL_URL urlRecord) of
        Inl err \<Rightarrow> []
      | Inr resp \<Rightarrow>
          if Resp_StatusCode resp \<ge> 400 then []
          else
            case html_Parse e (Resp_Body resp) of
              Inl err \<Rightarrow> []
            | Inr doc \<Rightarrow>
                Links (fst (extractData e doc (URL_URL urlRecord)
                              (requests w @ [GET (URL_URL urlRecord)]))))"

definition new_links :: "World \<Rightarrow> World \<Rightarrow> Link list" where
  "new_links w w' = drop (length (tbl_links (db w))) (tbl_links (db w'))"

text \<open>What a row of the links table keeps of the link it was saved from.\<close>

definition link_view :: "Link \<Rightarrow> string \<times> string \<times> string \<times> int" where
  "link_view l = (LinkURL l, LinkText l, LinkType l, StatusCode l)"

section \<open>An environment for the examples\<close>

text \<open>
  Stand-ins for the library functions, and a network of three hosts. \<open>sample_url_Parse\<close>
  reads the forms \<open>http://host/path\<close>, \<open>https://host/path\<close> and a bare path; like
  \<open>url.Parse\<close>, it cuts the fragment off and then rejects a string that holds an ASCII
  control byte (\<open>stringContainsCTLByte\<close> of net/url).
\<close>

definition stringContainsCTLByte :: "string \<Rightarrow> bool" where
  "stringContainsCTLByte s =
     list_ex (\<lambda>c. (of_char c :: nat) < 0x20 \<or> (of_char c :: nat) = 0x7f) s"

definition sample_url_Parse :: "string \<Rightarrow> string + url_URL" where
  "sample_url_Parse rawURL =
     (let u = takeWhile (\<lambda>c. c \<noteq> CHR ''#'') rawURL;
          frag = drop (Suc (length u)) rawURL
      in if stringContainsCTLByte u then Inl ''net/url: invalid control character in URL''
         else if take 8 u = ''https://'' then
           Inr \<lparr>Scheme = ''https'', Host = takeWhile (\<lambda>c. c \<noteq> CHR ''/'') (drop 8 u),
                Path = dropWhile (\<lambda>c. c \<noteq> CHR ''/'') (drop 8 u), RawQuery = [],
                Fragment = frag\<rparr>
         else if take 7 u = ''http://'' then
           Inr \<lparr>Scheme = ''http'', Host = takeWhile (\<lambda>c. c \<noteq> CHR ''/'') (drop 7 u),
                Path = dropWhile (\<lambda>c. c \<noteq> CHR ''/'') (drop 7 u), RawQuery = [],
                Fragment = frag\<rparr>
         else Inr \<lparr>Scheme = [], Host = [], Path = u, RawQuery = [], Fragment = frag\<rparr>)"

definition sample_ResolveReference :: "url_URL \<Rightarrow> url_URL \<Rightarrow> url_URL" where
  "sample_ResolveReference base ref =
     (if Scheme ref \<noteq> [] then ref
      else if Host ref \<noteq> [] then ref\<lparr>Scheme := Scheme base\<rparr>
      else ref\<lparr>Scheme := Scheme base, Host := Host base\<rparr>)"

definition sample_url_String :: "url_URL \<Rightarrow> string" where
  "sample_url_String u =
     (if Scheme u = [] then [] else Scheme u @ ''://'') @ Host u @ Path u
     @ (if Fragment u = [] then [] else CHR ''#'' # Fragment u)"

definition ascii_space :: "char \<Rightarrow> bool" where
  "ascii_space c = (c \<in> set [CHR 0x09, CHR 0x0A, CHR 0x0B, CHR 0x0C, CHR 0x0D, CHR 0x20])"

definition sample_TrimSpace :: "string \<Rightarrow> string" where
  "sample_TrimSpace s = rev (dropWhile ascii_space (rev (dropWhile ascii_space s)))"

definition sample_ToLower :: "string \<Rightarrow> string" where
  "sample_ToLower s =
     map (\<lambda>c. if 65 \<le> (of_char c :: nat) \<and> (of_char c :: nat) \<le> 90
               then char_of ((of_char c :: nat) + 32) else c) s"

definition elem :: "string \<Rightarrow> Attribute list \<Rightarrow> Node list \<Rightarrow> Node" where
  "elem tag attrs cs = Node ElementNode tag attrs cs"

definition text_node :: "string \<Rightarrow> Node" where
  "text_node s = Node TextNode s [] []"

definition href :: "string \<Rightarrow> Attribute list" where
  "href v = [\<lparr>Namespace = [], Key = ''href'', Val = v\<rparr>]"

text \<open>An anchor whose \<open>href\<close> ends in a line feed, as a link broken over two lines does.\<close>

definition newline_anchor :: Node where
  "newline_anchor = elem ''a'' (href (''/page'' @ [CHR 0x0A])) [text_node ''Next page'']"

text \<open>
  The page of the repository's crawler test, with a link to a page that is gone and the
  anchor above.
\<close>

definition sample_doc :: Node where
  "sample_doc =
     Node DocumentNode [] []
       [elem ''html'' []
          [elem ''head'' [] [elem ''title'' [] [text_node ''Test Page'']],
           elem ''body'' []
             [elem ''h1'' [] [text_node ''Main Title''],
              elem ''h2'' [] [text_node ''Subtitle''],
              elem ''h3'' [] [text_node ''Section''],
              elem ''a'' (href ''/internal'') [text_node ''Internal Link''],
              elem ''a'' (href ''https://external.com'') [text_node ''External Link''],
              elem ''a'' (href ''https://external.com/old'') [text_node ''Old Link''],
              newline_anchor,
              elem ''a'' [] [text_node ''No href'']]]]"

definition sample_http_Get :: "Request list \<Rightarrow> string \<Rightarrow> string + Response" where
  "sample_http_Get log url =
     (if url = ''https://example.com''
      then Inr \<lparr>Resp_StatusCode = 200, Resp_Status = ''200 OK'', Resp_Body = ''index''\<rparr>
      else if url = ''https://example.com/gone''
      then Inr \<lparr>Resp_StatusCode = 404, Resp_Status = ''404 Not Found'', Resp_Body = []\<rparr>
      else Inl ''dial tcp: lookup failed: no such host'')"

definition sample_client_Head :: "Request list \<Rightarrow> string \<Rightarrow> string + Response" where
  "sample_client_Head log url =
     (if url = ''https://external.com''
      then Inr \<lparr>Resp_StatusCode = 200, Resp_Status = ''200 OK'', Resp_Body = []\<rparr>
      else if url = ''https://external.com/old''
      then Inr \<lparr>Resp_StatusCode = 404, Resp_Status = ''404 Not Found'', Resp_Body = []\<rparr>
      else Inl ''dial tcp: lookup failed: no such host'')"

definition sample_html_Parse :: "string \<Rightarrow> string + Node" where
  "sample_html_Parse body =
     (if body = ''index'' then Inr sample_doc else Inl ''unexpected EOF'')"

definition sample_env :: env where
  "sample_env =
     \<lparr>url_Parse = sample_url_Parse, url_ResolveReference = sample_ResolveReference,
      url_String = sample_url_String, strings_TrimSpace = sample_TrimSpace,
      strings_ToLower = sample_ToLower, html_Parse = sample_html_Parse,
      http_Get = sample_http_Get, client_Head = sample_client_Head,
      time_Now = (\<lambda>log. 1000 + length log)\<rparr>"

definition sample_base :: url_URL where
  "sample_base =
     \<lparr>Scheme = ''https'', Host = ''example.com'', Path = [], RawQuery = [], Fragment = []\<rparr>"

definition sample_url :: URL where
  "sample_url =
     \<lparr>URL_ID = 1, URL_URL = ''https://example.com'', URL_Title = [], URL_HTMLVersion = [],
      URL_Status = ''pending'', URL_HasLoginForm = False, URL_DeletedAt = None\<rparr>"

definition sample_crawl :: Crawl where
  "sample_crawl =
     \<lparr>Crawl_ID = 1, Crawl_URLID = 1, Crawl_Status = ''running'',
      Crawl_StartedAt = Some 1000, Crawl_CompletedAt = None, Crawl_ErrorMessage = [],
      Crawl_InternalLinks = 0, Crawl_ExternalLinks = 0, Crawl_BrokenLinks = 0,
      Crawl_HeadingCounts = []\<rparr>"

definition sample_world :: World where
  "sample_world =
     \<lparr>db = \<lparr>tbl_urls = [sample_url], tbl_crawls = [sample_crawl], tbl_links = []\<rparr>,
      requests = []\<rparr>"

definition internal_anchor :: Node where
  "internal_anchor = elem ''a'' (href ''/internal'') [text_node ''Internal Link'']"

text \<open>A page that answers 404.\<close>

definition gone_url :: URL where
  "gone_url = sample_url\<lparr>URL_URL := ''https://example.com/gone''\<rparr>"

text \<open>The store of the examples after the URL was deleted at time 2000.\<close>

definition deleted_db :: DB where
  "deleted_db = DeleteURL 1 2000 (db sample_world)"

text \<open>A query string with nothing usable in it.\<close>

definition hostile_query :: "string \<rightharpoonup> string" where
  "hostile_query =
     map_of [(''limit'', ''500''), (''offset'', ''-3''), (''sortBy'', ''password; DROP TABLE urls''),
             (''sortOrder'', ''ASC'')]"

section \<open>Invariants of link extraction\<close>

text \<open>
  What holds of the data while the document is traversed, before any link is checked:
  the two counters count the links of each type, no link is broken or marked
  inaccessible, and no link has a primary key yet.
\<close>


definition links_inv :: "CrawlData \<Rightarrow> bool" where
  "links_inv d \<longleftrightarrow>
     InternalLinks d = int (length (filter (\<lambda>l. LinkType l = ''internal'') (Links d))) \<and>
     ExternalLinks d = int (length (filter (\<lambda>l. LinkType l \<noteq> ''internal'') (Links d))) \<and>
     BrokenLinks d = 0 \<and>
     list_all (\<lambda>l. IsAccessible l \<and> Link_ID l = 0) (Links d)"

lemma links_inv_new: "links_inv new_CrawlData"
  by (simp add: links_inv_def new_CrawlData_def)

lemma processLink_inv: "links_inv d \<Longrightarrow> links_inv (processLink e n d b)"
  by (simp add: links_inv_def processLink_def Let_def split: sum.splits)

lemma visitNode_inv: "links_inv d \<Longrightarrow> links_inv (visitNode e n d b)"
  by (simp add: visitNode_def processLink_inv checkLoginForm_def detectHTMLVersion_def
      split: list.splits) (simp add: links_inv_def)

lemma traverse_inv:
  "links_inv d \<Longrightarrow> links_inv (traverseHTML e n d b)"
  "links_inv d \<Longrightarrow> links_inv (traverseChildren e cs d b)"
  by (induction e n d b and e cs d b rule: traverseHTML_traverseChildren.induct)
     (simp_all add: visitNode_inv)

lemma checkLinks_length: "checkLinks e ls k log = (ls', k', log') \<Longrightarrow> length ls' = length ls"
  by (induction ls arbitrary: k log ls' k' log') (auto split: prod.splits)

lemma checkLink_type: "checkLink e l k log = (l', k', log') \<Longrightarrow> LinkType l' = LinkType l \<and> LinkURL l' = LinkURL l \<and> Link_ID l' = Link_ID l"
  by (auto simp: checkLink_def split: if_splits sum.splits)

lemma checkLinks_type:
  "checkLinks e ls k log = (ls', k', log') \<Longrightarrow>
     map LinkType ls' = map LinkType ls \<and> map LinkURL ls' = map LinkURL ls \<and> map Link_ID ls' = map Link_ID ls"
  by (induction ls arbitrary: k log ls' k' log') (auto split: prod.splits dest: checkLink_type)


lemma checkLinks_broken:
  "checkLinks e ls k log = (ls', k', log') \<Longrightarrow> list_all IsAccessible ls \<Longrightarrow>
     k' = k + int (length (filter (\<lambda>l. \<not> IsAccessible l) ls'))"
proof (induction ls arbitrary: k log ls' k' log')
  case Nil
  then show ?case by simp
next
  case (Cons l ls)
  obtain l1 k1 log1 where s1: "checkLink e l k log = (l1, k1, log1)"
    by (cases "checkLink e l k log") auto
  obtain ls2 k2 log2 where s2: "checkLinks e ls k1 log1 = (ls2, k2, log2)"
    by (cases "checkLinks e ls k1 log1") auto
  from Cons.prems s1 s2 have out: "ls' = l1 # ls2" "k' = k2" by auto
  from Cons.prems have acc: "IsAccessible l" "list_all IsAccessible ls" by auto
  from Cons.IH [OF s2 acc(2)] have k2: "k2 = k1 + int (length (filter (\<lambda>l. \<not> IsAccessible l) ls2))" .
  from s1 acc(1) have "k1 = k + (if IsAccessible l1 then 0 else 1)"
    by (auto simp: checkLink_def split: if_splits sum.splits)
  with k2 out show ?case by simp
qed

lemma checkLinks_log:
  "checkLinks e ls k log = (ls', k', log') \<Longrightarrow>
     log' = log @ map (\<lambda>l. HEAD (LinkURL l)) (filter (\<lambda>l. LinkType l \<noteq> ''internal'') ls)"
proof (induction ls arbitrary: k log ls' k' log')
  case Nil
  then show ?case by simp
next
  case (Cons l ls)
  obtain l1 k1 log1 where s1: "checkLink e l k log = (l1, k1, log1)"
    by (cases "checkLink e l k log") auto
  obtain ls2 k2 log2 where s2: "checkLinks e ls k1 log1 = (ls2, k2, log2)"
    by (cases "checkLinks e ls k1 log1") auto
  from Cons.prems s1 s2 have out: "log' = log2" by auto
  from s1 have "log1 = log @ (if LinkType l = ''internal'' then [] else [HEAD (LinkURL l)])"
    by (auto simp: checkLink_def split: if_splits sum.splits)
  with Cons.IH [OF s2] out show ?case by simp
qed

lemma checkLinks_internal:
  "checkLinks e ls k log = (ls', k', log') \<Longrightarrow> list_all IsAccessible ls \<Longrightarrow>
     list_all (\<lambda>l. LinkType l = ''internal'' \<longrightarrow> StatusCode l = 200 \<and> IsAccessible l) ls'"
proof (induction ls arbitrary: k log ls' k' log')
  case Nil
  then show ?case by simp
next
  case (Cons l ls)
  obtain l1 k1 log1 where s1: "checkLink e l k log = (l1, k1, log1)"
    by (cases "checkLink e l k log") auto
  obtain ls2 k2 log2 where s2: "checkLinks e ls k1 log1 = (ls2, k2, log2)"
    by (cases "checkLinks e ls k1 log1") auto
  from Cons.prems s1 s2 have out: "ls' = l1 # ls2" by auto
  from Cons.prems have acc: "IsAccessible l" "list_all IsAccessible ls" by auto
  from s1 acc(1) have "LinkType l1 = ''internal'' \<longrightarrow> StatusCode l1 = 200 \<and> IsAccessible l1"
    by (auto simp: checkLink_def split: if_splits sum.splits)
  with Cons.IH [OF s2 acc(2)] out show ?case by simp
qed

lemma filter_le_filter:
  "list_all (\<lambda>l. P l \<longrightarrow> Q l) xs \<Longrightarrow> length (filter P xs) \<le> length (filter Q xs)"
  by (induction xs) auto

lemma length_filter_map_eq:
  "map f xs = map f ys \<Longrightarrow> length (filter (\<lambda>x. P (f x)) xs) = length (filter (\<lambda>x. P (f x)) ys)"
proof -
  assume "map f xs = map f ys"
  then have "filter P (map f xs) = filter P (map f ys)" by simp
  then have "length (filter P (map f xs)) = length (filter P (map f ys))" by simp
  then show ?thesis by (simp add: filter_map comp_def)
qed

lemma extractData_counts_aux:
  "extractData e doc baseURL log = (data, log') \<Longrightarrow>
   InternalLinks data + ExternalLinks data = int (length (Links data)) \<and>
   BrokenLinks data = int (length (filter (\<lambda>l. \<not> IsAccessible l) (Links data))) \<and>
   BrokenLinks data \<le> ExternalLinks data"
proof (cases "url_Parse e baseURL")
  case (Inl err)
  assume "extractData e doc baseURL log = (data, log')"
  with Inl have "data = new_CrawlData" by (simp add: extractData_def)
  then show ?thesis by (simp add: new_CrawlData_def)
next
  case (Inr b)
  assume ex: "extractData e doc baseURL log = (data, log')"
  define d0 where "d0 = traverseHTML e doc new_CrawlData b"
  have inv: "links_inv d0" unfolding d0_def by (rule traverse_inv(1) [OF links_inv_new])
  obtain ls' k' lg where cl: "checkLinks e (Links d0) (BrokenLinks d0) log = (ls', k', lg)"
    by (cases "checkLinks e (Links d0) (BrokenLinks d0) log") auto
  from ex Inr cl have data: "data = d0\<lparr>Links := ls', BrokenLinks := k'\<rparr>"
    by (simp add: extractData_def checkLinkAccessibility_def d0_def)
  from inv have acc: "list_all IsAccessible (Links d0)"
    by (simp add: links_inv_def list_all_iff)
  have len: "length ls' = length (Links d0)" by (rule checkLinks_length [OF cl])
  have ty: "map LinkType ls' = map LinkType (Links d0)" using checkLinks_type [OF cl] by simp
  have br: "k' = int (length (filter (\<lambda>l. \<not> IsAccessible l) ls'))"
    using checkLinks_broken [OF cl acc] inv by (simp add: links_inv_def)
  have int_acc: "list_all (\<lambda>l. LinkType l = ''internal'' \<longrightarrow> StatusCode l = 200 \<and> IsAccessible l) ls'"
    by (rule checkLinks_internal [OF cl acc])
  have "list_all (\<lambda>l. \<not> IsAccessible l \<longrightarrow> LinkType l \<noteq> ''internal'') ls'"
    using int_acc by (auto simp: list_all_iff)
  then have le: "length (filter (\<lambda>l. \<not> IsAccessible l) ls') \<le> length (filter (\<lambda>l. LinkType l \<noteq> ''internal'') ls')"
    by (rule filter_le_filter)
  have ext: "length (filter (\<lambda>l. LinkType l \<noteq> ''internal'') ls') = length (filter (\<lambda>l. LinkType l \<noteq> ''internal'') (Links d0))"
    using length_filter_map_eq [OF ty, of "\<lambda>t. t \<noteq> ''internal''"] by simp
  have sum: "InternalLinks d0 + ExternalLinks d0 = int (length (Links d0))"
    using inv sum_length_filter_compl [of "\<lambda>l. LinkType l = ''internal''" "Links d0"]
    by (simp add: links_inv_def)
  have ext0: "ExternalLinks d0 = int (length (filter (\<lambda>l. LinkType l \<noteq> ''internal'') (Links d0)))"
    using inv by (simp add: links_inv_def)
  show ?thesis using data len br le ext sum ext0 by simp
qed


text \<open>
  C2. After link extraction and accessibility checking on any parsed document,
  \<open>InternalLinks + ExternalLinks\<close> is the number of links collected, \<open>BrokenLinks\<close> is the
  number of links whose \<open>IsAccessible\<close> flag is false, and \<open>BrokenLinks\<close> is at most
  \<open>ExternalLinks\<close>.
\<close>

theorem C2_aggregated_counts:
  "(let data = fst (extractData e doc baseURL log) in
      InternalLinks data + ExternalLinks data = int (length (Links data)) \<and>
      BrokenLinks data = int (length (filter (\<lambda>l. \<not> IsAccessible l) (Links data))) \<and>
      BrokenLinks data \<le> ExternalLinks data)"
proof -
  obtain data log' where ex: "extractData e doc baseURL log = (data, log')"
    by (cases "extractData e doc baseURL log") auto
  from extractData_counts_aux [OF ex] ex show ?thesis by simp
qed

section \<open>The crawl and the store\<close>

lemma find_save_row: "find (\<lambda>y. pk y = pk x) (save_row pk x ys) = Some x"
  by (induction ys) auto

lemma checkLinks_log_out:
  "checkLinks e ls k log = (ls', k', log') \<Longrightarrow>
     log' = log @ map (\<lambda>l. HEAD (LinkURL l)) (filter (\<lambda>l. LinkType l \<noteq> ''internal'') ls')"
proof (induction ls arbitrary: k log ls' k' log')
  case Nil
  then show ?case by simp
next
  case (Cons l ls)
  obtain l1 k1 log1 where s1: "checkLink e l k log = (l1, k1, log1)"
    by (cases "checkLink e l k log") auto
  obtain ls2 k2 log2 where s2: "checkLinks e ls k1 log1 = (ls2, k2, log2)"
    by (cases "checkLinks e ls k1 log1") auto
  from Cons.prems s1 s2 have out: "log' = log2" "ls' = l1 # ls2" by auto
  from s1 have "log1 = log @ (if LinkType l1 = ''internal'' then [] else [HEAD (LinkURL l1)])"
    by (auto simp: checkLink_def split: if_splits sum.splits)
  with Cons.IH [OF s2] out show ?case by simp
qed

lemma checkLinks_ids:
  "checkLinks e ls k log = (ls', k', log') \<Longrightarrow> list_all (\<lambda>l. Link_ID l = 0) ls \<Longrightarrow>
     list_all (\<lambda>l. Link_ID l = 0) ls'"
proof (induction ls arbitrary: k log ls' k' log')
  case Nil
  then show ?case by simp
next
  case (Cons l ls)
  obtain l1 k1 log1 where s1: "checkLink e l k log = (l1, k1, log1)"
    by (cases "checkLink e l k log") auto
  obtain ls2 k2 log2 where s2: "checkLinks e ls k1 log1 = (ls2, k2, log2)"
    by (cases "checkLinks e ls k1 log1") auto
  from Cons.prems s1 s2 have out: "ls' = l1 # ls2" by auto
  from Cons.prems have ids: "Link_ID l = 0" "list_all (\<lambda>l. Link_ID l = 0) ls" by auto
  from checkLink_type [OF s1] ids(1) have "Link_ID l1 = 0" by simp
  with Cons.IH [OF s2 ids(2)] out show ?case by simp
qed

lemma extractData_cases:
  assumes "extractData e doc baseURL log = (data, log')"
  shows "(data = new_CrawlData \<and> log' = log) \<or>
         (\<exists>d0 k'. links_inv d0 \<and> checkLinks e (Links d0) (BrokenLinks d0) log = (Links data, k', log'))"
proof (cases "url_Parse e baseURL")
  case (Inl err)
  with assms show ?thesis by (simp add: extractData_def)
next
  case (Inr b)
  define d0 where "d0 = traverseHTML e doc new_CrawlData b"
  have inv: "links_inv d0" unfolding d0_def by (rule traverse_inv(1) [OF links_inv_new])
  obtain ls' k' lg where cl: "checkLinks e (Links d0) (BrokenLinks d0) log = (ls', k', lg)"
    by (cases "checkLinks e (Links d0) (BrokenLinks d0) log") auto
  from assms Inr cl have "data = d0\<lparr>Links := ls', BrokenLinks := k'\<rparr>" "log' = lg"
    by (simp_all add: extractData_def checkLinkAccessibility_def d0_def)
  then have "Links data = ls'" "log' = lg" by simp_all
  with inv cl show ?thesis by auto
qed

lemma extractData_log:
  assumes "extractData e doc baseURL log = (data, log')"
  shows "log' = log @ map (\<lambda>l. HEAD (LinkURL l)) (filter (\<lambda>l. LinkType l \<noteq> ''internal'') (Links data))"
  using extractData_cases [OF assms]
  by (auto simp: new_CrawlData_def dest: checkLinks_log_out)

lemma extractData_internal:
  assumes "extractData e doc baseURL log = (data, log')"
  shows "list_all (\<lambda>l. LinkType l = ''internal'' \<longrightarrow> StatusCode l = 200 \<and> IsAccessible l) (Links data)"
  using extractData_cases [OF assms]
proof (elim disjE exE conjE)
  assume "data = new_CrawlData"
  then show ?thesis by (simp add: new_CrawlData_def)
next
  fix d0 k'
  assume inv: "links_inv d0"
    and cl: "checkLinks e (Links d0) (BrokenLinks d0) log = (Links data, k', log')"
  from inv have "list_all IsAccessible (Links d0)" by (simp add: links_inv_def list_all_iff)
  with cl show ?thesis by (rule checkLinks_internal)
qed

lemma extractData_ids:
  assumes "extractData e doc baseURL log = (data, log')"
  shows "list_all (\<lambda>l. Link_ID l = 0) (Links data)"
  using extractData_cases [OF assms]
proof (elim disjE exE conjE)
  assume "data = new_CrawlData"
  then show ?thesis by (simp add: new_CrawlData_def)
next
  fix d0 k'
  assume inv: "links_inv d0"
    and cl: "checkLinks e (Links d0) (BrokenLinks d0) log = (Links data, k', log')"
  from inv have "list_all (\<lambda>l. Link_ID l = 0) (Links d0)" by (simp add: links_inv_def list_all_iff)
  with cl show ?thesis by (rule checkLinks_ids)
qed

lemma gorm_default_IsAccessible_eq:
  "gorm_default_IsAccessible l = l\<lparr>IsAccessible := True\<rparr>"
  by (cases "IsAccessible l") (simp_all add: gorm_default_IsAccessible_def)

lemma db_Create_Link_fresh:
  "Link_ID l = 0 \<Longrightarrow>
     db_Create_Link d l =
       d\<lparr>tbl_links := tbl_links d @
          [l\<lparr>IsAccessible := True, Link_ID := next_id (map Link_ID (tbl_links d))\<rparr>]\<rparr>"
  by (simp add: db_Create_Link_def create_row_def Let_def gorm_default_IsAccessible_eq)

lemma save_links_rows:
  "list_all (\<lambda>l. Link_ID l = 0) ls \<Longrightarrow>
   \<exists>rows. tbl_links (save_links u c ls d) = tbl_links d @ rows \<and>
          map (\<lambda>l. l\<lparr>Link_ID := 0\<rparr>) rows =
            map (\<lambda>l. l\<lparr>Link_URLID := u, Link_CrawlID := c, IsAccessible := True\<rparr>) ls \<and>
          tbl_urls (save_links u c ls d) = tbl_urls d \<and>
          tbl_crawls (save_links u c ls d) = tbl_crawls d"
proof (induction ls arbitrary: d)
  case Nil
  then show ?case by simp
next
  case (Cons l ls)
  then have id0: "Link_ID l = 0" and rest: "list_all (\<lambda>l. Link_ID l = 0) ls" by auto
  define l' where "l' = l\<lparr>Link_URLID := u, Link_CrawlID := c\<rparr>"
  define d1 where "d1 = db_Create_Link d l'"
  define r where "r = l'\<lparr>IsAccessible := True, Link_ID := next_id (map Link_ID (tbl_links d))\<rparr>"
  have "Link_ID l' = 0" using id0 by (simp add: l'_def)
  then have d1: "d1 = d\<lparr>tbl_links := tbl_links d @ [r]\<rparr>"
    unfolding d1_def r_def by (rule db_Create_Link_fresh)
  from Cons.IH [OF rest, of d1] obtain rows where
    rows: "tbl_links (save_links u c ls d1) = tbl_links d1 @ rows"
      "map (\<lambda>l. l\<lparr>Link_ID := 0\<rparr>) rows =
         map (\<lambda>l. l\<lparr>Link_URLID := u, Link_CrawlID := c, IsAccessible := True\<rparr>) ls"
      "tbl_urls (save_links u c ls d1) = tbl_urls d1"
      "tbl_crawls (save_links u c ls d1) = tbl_crawls d1"
    by blast
  have r0: "r\<lparr>Link_ID := 0\<rparr> = l'\<lparr>IsAccessible := True\<rparr>"
    using \<open>Link_ID l' = 0\<close> by (cases l') (simp add: r_def)
  have step: "save_links u c (l # ls) d = save_links u c ls d1"
    by (simp add: d1_def l'_def)
  show ?case
  proof (intro exI [of _ "r # rows"] conjI)
    show "tbl_links (save_links u c (l # ls) d) = tbl_links d @ r # rows"
      using step rows(1) d1 by simp
    show "map (\<lambda>l. l\<lparr>Link_ID := 0\<rparr>) (r # rows) =
        map (\<lambda>l. l\<lparr>Link_URLID := u, Link_CrawlID := c, IsAccessible := True\<rparr>) (l # ls)"
      using rows(2) r0 by (simp add: l'_def)
    show "tbl_urls (save_links u c (l # ls) d) = tbl_urls d" using step rows(3) d1 by simp
    show "tbl_crawls (save_links u c (l # ls) d) = tbl_crawls d" using step rows(4) d1 by simp
  qed
qed

lemma performCrawl_deferred_facts:
  assumes "performCrawl_deferred e u c w = (u', c', w')"
  shows "u' = u\<lparr>URL_Status := Crawl_Status c\<rparr>"
    and "c' = c\<lparr>Crawl_CompletedAt := Some (time_Now e (requests w))\<rparr>"
    and "requests w' = requests w"
    and "tbl_links (db w') = tbl_links (db w)"
    and "find (\<lambda>r. URL_ID r = URL_ID u) (tbl_urls (db w')) = Some u'"
    and "find (\<lambda>r. Crawl_ID r = Crawl_ID c) (tbl_crawls (db w')) = Some c'"
proof -
  from assms show u': "u' = u\<lparr>URL_Status := Crawl_Status c\<rparr>"
    and c': "c' = c\<lparr>Crawl_CompletedAt := Some (time_Now e (requests w))\<rparr>"
    and "requests w' = requests w"
    and "tbl_links (db w') = tbl_links (db w)"
    by (auto simp: performCrawl_deferred_def Let_def db_Save_URL_def db_Save_Crawl_def)
  from assms have "tbl_urls (db w') = save_row URL_ID u' (tbl_urls (db w))"
    by (auto simp: performCrawl_deferred_def Let_def db_Save_URL_def db_Save_Crawl_def)
  moreover have "URL_ID u' = URL_ID u" using u' by simp
  ultimately show "find (\<lambda>r. URL_ID r = URL_ID u) (tbl_urls (db w')) = Some u'"
    using find_save_row [of URL_ID u' "tbl_urls (db w)"] by simp
  from assms have "tbl_crawls (db w') = save_row Crawl_ID c' (tbl_crawls (db w))"
    by (auto simp: performCrawl_deferred_def Let_def db_Save_URL_def db_Save_Crawl_def)
  moreover have "Crawl_ID c' = Crawl_ID c" using c' by simp
  ultimately show "find (\<lambda>r. Crawl_ID r = Crawl_ID c) (tbl_crawls (db w')) = Some c'"
    using find_save_row [of Crawl_ID c' "tbl_crawls (db w)"] by simp
qed

lemma performCrawl_failed:
  assumes "fetch_failed e u w"
  shows "\<exists>msg. msg \<noteq> [] \<and>
           performCrawl e u c w =
             performCrawl_deferred e u (c\<lparr>Crawl_Status := ''error'', Crawl_ErrorMessage := msg\<rparr>)
               (w\<lparr>requests := requests w @ [GET (URL_URL u)]\<rparr>)"
proof (cases "http_Get e (requests w) (URL_URL u)")
  case (Inl err)
  then have "performCrawl e u c w =
      performCrawl_deferred e u
        (c\<lparr>Crawl_Status := ''error'', Crawl_ErrorMessage := ''HTTP request failed: '' @ err\<rparr>)
        (w\<lparr>requests := requests w @ [GET (URL_URL u)]\<rparr>)"
    by (simp add: performCrawl_def)
  then show ?thesis by (intro exI [of _ "''HTTP request failed: '' @ err"]) simp
next
  case (Inr resp)
  show ?thesis
  proof (cases "Resp_StatusCode resp \<ge> 400")
    case True
    with Inr have "performCrawl e u c w =
        performCrawl_deferred e u
          (c\<lparr>Crawl_Status := ''error'',
             Crawl_ErrorMessage := ''HTTP '' @ itoa (Resp_StatusCode resp) @ '': '' @ Resp_Status resp\<rparr>)
          (w\<lparr>requests := requests w @ [GET (URL_URL u)]\<rparr>)"
      by (simp add: performCrawl_def)
    then show ?thesis
      by (intro exI [of _ "''HTTP '' @ itoa (Resp_StatusCode resp) @ '': '' @ Resp_Status resp"]) simp
  next
    case False
    with assms Inr obtain err where pe: "html_Parse e (Resp_Body resp) = Inl err"
      by (cases "html_Parse e (Resp_Body resp)") (auto simp: fetch_failed_def)
    with Inr False have "performCrawl e u c w =
        performCrawl_deferred e u
          (c\<lparr>Crawl_Status := ''error'', Crawl_ErrorMessage := ''HTML parsing failed: '' @ err\<rparr>)
          (w\<lparr>requests := requests w @ [GET (URL_URL u)]\<rparr>)"
      by (simp add: performCrawl_def)
    then show ?thesis by (intro exI [of _ "''HTML parsing failed: '' @ err"]) simp
  qed
qed

lemma performCrawl_completed:
  assumes "http_Get e (requests w) (URL_URL u) = Inr resp"
    and "Resp_StatusCode resp < 400"
    and "html_Parse e (Resp_Body resp) = Inr doc"
    and "extractData e doc (URL_URL u) (requests w @ [GET (URL_URL u)]) = (data, log)"
  shows "performCrawl e u c w =
           performCrawl_deferred e
             (u\<lparr>URL_Title := Title data, URL_HTMLVersion := HTMLVersion data,
                URL_HasLoginForm := HasLoginForm data\<rparr>)
             (c\<lparr>Crawl_InternalLinks := InternalLinks data,
                Crawl_ExternalLinks := ExternalLinks data,
                Crawl_BrokenLinks := BrokenLinks data,
                Crawl_HeadingCounts := json_Marshal_HeadingCounts (HeadingCounts data),
                Crawl_Status := ''completed''\<rparr>)
             (w\<lparr>db := save_links (URL_ID u) (Crawl_ID c) (Links data) (db w),
                requests := log\<rparr>)"
  using assms by (simp add: performCrawl_def Let_def)

lemma not_fetch_failed:
  assumes "\<not> fetch_failed e u w"
  shows "\<exists>resp doc. http_Get e (requests w) (URL_URL u) = Inr resp \<and>
           Resp_StatusCode resp < 400 \<and> html_Parse e (Resp_Body resp) = Inr doc"
proof (cases "http_Get e (requests w) (URL_URL u)")
  case (Inl err)
  with assms show ?thesis by (simp add: fetch_failed_def)
next
  case (Inr resp)
  with assms have "Resp_StatusCode resp < 400" "\<not> isl (html_Parse e (Resp_Body resp))"
    by (auto simp: fetch_failed_def)
  then obtain doc where "html_Parse e (Resp_Body resp) = Inr doc"
    by (cases "html_Parse e (Resp_Body resp)") auto
  with Inr \<open>Resp_StatusCode resp < 400\<close> show ?thesis by blast
qed

text \<open>
  \<open>StartCrawl\<close> on a URL it finds creates the crawl row, with no broken link counted yet,
  marks the URL as running and runs \<open>performCrawl\<close>; it makes no request of its own.
\<close>

lemma StartCrawl_runs_performCrawl:
  assumes "db_First_URL (db w) urlID = Some urlRecord"
  shows "\<exists>crawl w0.
           StartCrawl e urlID w = snd (snd (performCrawl e (urlRecord\<lparr>URL_Status := ''running''\<rparr>) crawl w0)) \<and>
           Crawl_URLID crawl = urlID \<and> Crawl_Status crawl = ''running'' \<and>
           Crawl_BrokenLinks crawl = 0 \<and> requests w0 = requests w \<and>
           tbl_links (db w0) = tbl_links (db w)"
proof -
  define crawl where "crawl = \<lparr>Crawl_ID = 0, Crawl_URLID = urlID, Crawl_Status = ''running'',
                       Crawl_StartedAt = Some (time_Now e (requests w)),
                       Crawl_CompletedAt = None, Crawl_ErrorMessage = [],
                       Crawl_InternalLinks = 0, Crawl_ExternalLinks = 0,
                       Crawl_BrokenLinks = 0, Crawl_HeadingCounts = []\<rparr>"
  define crawl1 where "crawl1 = crawl\<lparr>Crawl_ID := next_id (map Crawl_ID (tbl_crawls (db w)))\<rparr>"
  define db1 where "db1 = (db w)\<lparr>tbl_crawls := tbl_crawls (db w) @ [crawl1]\<rparr>"
  define db2 where "db2 = fst (db_Update_URL_status db1 urlRecord ''running'')"
  have cr: "db_Create_Crawl (db w) crawl = Inr (db1, crawl1)"
    by (simp add: db_Create_Crawl_def create_row_def crawl_def crawl1_def db1_def Let_def)
  have up: "db_Update_URL_status db1 urlRecord ''running'' = (db2, urlRecord\<lparr>URL_Status := ''running''\<rparr>)"
    by (simp add: db2_def db_Update_URL_status_def)
  have "StartCrawl e urlID w
      = snd (snd (performCrawl e (urlRecord\<lparr>URL_Status := ''running''\<rparr>) crawl1 (w\<lparr>db := db2\<rparr>)))"
    using assms cr up
    by (simp add: StartCrawl_def Let_def crawl_def [symmetric] split: prod.splits)
  moreover have "Crawl_URLID crawl1 = urlID" "Crawl_Status crawl1 = ''running''" "Crawl_BrokenLinks crawl1 = 0"
    by (simp_all add: crawl1_def crawl_def)
  moreover have "tbl_links (db (w\<lparr>db := db2\<rparr>)) = tbl_links (db w)"
    by (simp add: db2_def db_Update_URL_status_def db1_def)
  ultimately show ?thesis
    by (intro exI [of _ crawl1] exI [of _ "w\<lparr>db := db2\<rparr>"]) simp
qed

lemma broken_external:
  "list_all (\<lambda>l. LinkType l = ''internal'' \<longrightarrow> StatusCode l = 200 \<and> IsAccessible l) ls \<Longrightarrow>
   length (filter (\<lambda>l. \<not> IsAccessible l) (filter (\<lambda>l. LinkType l \<noteq> ''internal'') ls))
     = length (filter (\<lambda>l. \<not> IsAccessible l) ls)"
  by (induction ls) auto

lemma saved_rows_view:
  assumes "map (\<lambda>l. l\<lparr>Link_ID := 0\<rparr>) rows =
             map (\<lambda>l. l\<lparr>Link_URLID := u, Link_CrawlID := c, IsAccessible := True\<rparr>) ls"
  shows "map link_view rows = map link_view ls"
    and "list_all (\<lambda>l. Link_URLID l = u \<and> Link_CrawlID l = c \<and> IsAccessible l) rows"
proof -
  from assms have "map link_view (map (\<lambda>l. l\<lparr>Link_ID := 0\<rparr>) rows)
      = map link_view
          (map (\<lambda>l. l\<lparr>Link_URLID := u, Link_CrawlID := c, IsAccessible := True\<rparr>) ls)"
    by simp
  then show "map link_view rows = map link_view ls"
    by (simp add: comp_def link_view_def [abs_def])
  let ?k = "\<lambda>l. (Link_URLID l, Link_CrawlID l, IsAccessible l)"
  from assms have "map ?k (map (\<lambda>l. l\<lparr>Link_ID := 0\<rparr>) rows)
      = map ?k (map (\<lambda>l. l\<lparr>Link_URLID := u, Link_CrawlID := c, IsAccessible := True\<rparr>) ls)"
    by simp
  then have "map ?k rows = map (\<lambda>l. (u, c, True)) ls" by (simp add: comp_def)
  then have "set (map ?k rows) \<subseteq> {(u, c, True)}" by auto
  then show "list_all (\<lambda>l. Link_URLID l = u \<and> Link_CrawlID l = c \<and> IsAccessible l) rows"
    by (auto simp: list_all_iff)
qed

lemma extracted_links_failed:
  "fetch_failed e u w \<Longrightarrow> extracted_links e u w = []"
  by (auto simp: fetch_failed_def extracted_links_def split: sum.splits)

lemma extracted_links_completed:
  assumes "http_Get e (requests w) (URL_URL u) = Inr resp"
    and "Resp_StatusCode resp < 400"
    and "html_Parse e (Resp_Body resp) = Inr doc"
    and "extractData e doc (URL_URL u) (requests w @ [GET (URL_URL u)]) = (data, log)"
  shows "extracted_links e u w = Links data"
  using assms by (simp add: extracted_links_def)

lemma sample_run:
  "performCrawl sample_env sample_url sample_crawl sample_world =
     (fst (performCrawl sample_env sample_url sample_crawl sample_world),
      fst (snd (performCrawl sample_env sample_url sample_crawl sample_world)),
      snd (snd (performCrawl sample_env sample_url sample_crawl sample_world)))"
  by simp

lemma gone_run:
  "performCrawl sample_env gone_url sample_crawl sample_world =
     (fst (performCrawl sample_env gone_url sample_crawl sample_world),
      fst (snd (performCrawl sample_env gone_url sample_crawl sample_world)),
      snd (snd (performCrawl sample_env gone_url sample_crawl sample_world)))"
  by simp

lemma visitNode_anchor:
  "Node_Type n = ElementNode \<Longrightarrow> Data n = ''a'' \<Longrightarrow> visitNode e n data b = processLink e n data b"
  by (simp add: visitNode_def)

section \<open>Link classification\<close>

text \<open>
  C1, as amended. For every anchor element whose \<open>href\<close> is not empty and is accepted by
  \<open>url.Parse\<close>, the traversal records one link, and the link is classified as "internal"
  if and only if the \<open>href\<close>, resolved against the page's base URL, has a host equal to
  the base URL's host; otherwise it is classified as "external". An anchor whose \<open>href\<close>
  \<open>url.Parse\<close> rejects is skipped: the traversal leaves the data as they are, and no link
  is recorded for it.
\<close>

theorem C1_link_classification:
  assumes "Node_Type n = ElementNode" and "Data n = ''a''"
    and "href_of (Attr n) \<noteq> []"
  shows "(case url_Parse e (href_of (Attr n)) of
            Inl err \<Rightarrow> visitNode e n data baseURL = data
          | Inr linkURL \<Rightarrow>
              (let data' = visitNode e n data baseURL;
                   link = last (Links data');
                   resolvedURL = url_ResolveReference e baseURL linkURL
               in Links data' = Links data @ [link] \<and>
                  LinkURL link = url_String e resolvedURL \<and>
                  (LinkType link = ''internal'' \<longleftrightarrow> Host resolvedURL = Host baseURL) \<and>
                  (LinkType link = ''external'' \<longleftrightarrow> Host resolvedURL \<noteq> Host baseURL)))"
proof -
  have v: "visitNode e n data baseURL = processLink e n data baseURL"
    using assms(1,2) by (rule visitNode_anchor)
  show ?thesis
  proof (cases "url_Parse e (href_of (Attr n))")
    case (Inl err)
    with v assms(3) show ?thesis by (simp add: processLink_def Let_def)
  next
    case (Inr linkURL)
    with v assms(3) show ?thesis by (simp add: processLink_def Let_def)
  qed
qed

theorem C1_link_classification_witness:
  "Node_Type internal_anchor = ElementNode \<and> Data internal_anchor = ''a'' \<and>
   href_of (Attr internal_anchor) = ''/internal'' \<and>
   LinkType (last (Links (visitNode sample_env internal_anchor new_CrawlData sample_base)))
     = ''internal'' \<and>
   Node_Type newline_anchor = ElementNode \<and> Data newline_anchor = ''a'' \<and>
   href_of (Attr newline_anchor) = ''/page'' @ [CHR 0x0A] \<and>
   visitNode sample_env newline_anchor new_CrawlData sample_base = new_CrawlData"
proof -
  have h1: "Node_Type internal_anchor = ElementNode" by code_simp
  have h2: "Data internal_anchor = ''a''" by code_simp
  have h3: "href_of (Attr internal_anchor) \<noteq> []" by code_simp
  have h3': "href_of (Attr internal_anchor) = ''/internal''" by code_simp
  have h4: "url_Parse sample_env (href_of (Attr internal_anchor))
              = Inr \<lparr>Scheme = [], Host = [], Path = ''/internal'', RawQuery = [], Fragment = []\<rparr>"
    by code_simp
  have h5: "Host (url_ResolveReference sample_env sample_base
              \<lparr>Scheme = [], Host = [], Path = ''/internal'', RawQuery = [], Fragment = []\<rparr>)
            = Host sample_base"
    by code_simp
  from C1_link_classification [OF h1 h2 h3, of sample_env new_CrawlData sample_base] h4 h5
  have a: "LinkType (last (Links (visitNode sample_env internal_anchor new_CrawlData sample_base)))
          = ''internal''"
    by (simp add: Let_def)
  have g1: "Node_Type newline_anchor = ElementNode" by code_simp
  have g2: "Data newline_anchor = ''a''" by code_simp
  have g3: "href_of (Attr newline_anchor) \<noteq> []" by code_simp
  have g3': "href_of (Attr newline_anchor) = ''/page'' @ [CHR 0x0A]" by code_simp
  have g4: "url_Parse sample_env (href_of (Attr newline_anchor))
              = Inl ''net/url: invalid control character in URL''"
    by code_simp
  from C1_link_classification [OF g1 g2 g3, of sample_env new_CrawlData sample_base] g4
  have b: "visitNode sample_env newline_anchor new_CrawlData sample_base = new_CrawlData"
    by simp
  from h1 h2 h3' a g1 g2 g3' b show ?thesis by simp
qed

text \<open>
  C1 as stated fails for an anchor whose non-empty \<open>href\<close> is rejected by \<open>url.Parse\<close>:
  \<open>processLink\<close> returns at the error, and the anchor is classified neither as internal
  nor as external. Here the \<open>href\<close> ends in a line feed.
\<close>

theorem C1_counterexample:
  "Node_Type newline_anchor = ElementNode \<and> Data newline_anchor = ''a'' \<and>
   href_of (Attr newline_anchor) = ''/page'' @ [CHR 0x0A] \<and>
   Links (visitNode sample_env newline_anchor new_CrawlData sample_base) = [] \<and>
   InternalLinks (visitNode sample_env newline_anchor new_CrawlData sample_base) = 0 \<and>
   ExternalLinks (visitNode sample_env newline_anchor new_CrawlData sample_base) = 0"
  by code_simp

section \<open>Requests of a crawl\<close>

text \<open>
  C3. Every crawl performs exactly one HTTP GET of the submitted URL followed by a serial
  loop of HEAD requests: one HEAD request for each external link that was extracted, in
  order, and none for an internal link. Internal links are assigned status code 200
  without being probed and are never counted as broken: the broken links of a completed
  crawl are the external links that are not accessible. The rows that the crawl adds to
  the links table are these links, with their URL, text, type and status code.
\<close>

theorem C3_requests_of_a_crawl:
  assumes "performCrawl e urlRecord crawl w = (urlRecord', crawl', w')"
  shows "(let links = extracted_links e urlRecord w;
              external = filter (\<lambda>l. LinkType l \<noteq> ''internal'') links
          in requests w' =
               requests w @ GET (URL_URL urlRecord) # map (\<lambda>l. HEAD (LinkURL l)) external \<and>
             list_all (\<lambda>l. LinkType l = ''internal'' \<longrightarrow> StatusCode l = 200 \<and> IsAccessible l)
               links \<and>
             (Crawl_Status crawl' = ''completed'' \<longrightarrow>
                Crawl_BrokenLinks crawl' =
                  int (length (filter (\<lambda>l. \<not> IsAccessible l) external))) \<and>
             map link_view (new_links w w') = map link_view links)"
proof (cases "fetch_failed e urlRecord w")
  case True
  from performCrawl_failed [OF True, of crawl] obtain msg where
    pc: "performCrawl e urlRecord crawl w =
           performCrawl_deferred e urlRecord
             (crawl\<lparr>Crawl_Status := ''error'', Crawl_ErrorMessage := msg\<rparr>)
             (w\<lparr>requests := requests w @ [GET (URL_URL urlRecord)]\<rparr>)"
    by blast
  from pc assms have d: "performCrawl_deferred e urlRecord
             (crawl\<lparr>Crawl_Status := ''error'', Crawl_ErrorMessage := msg\<rparr>)
             (w\<lparr>requests := requests w @ [GET (URL_URL urlRecord)]\<rparr>) = (urlRecord', crawl', w')"
    by simp
  note f = performCrawl_deferred_facts [OF d]
  from f(4) have "new_links w w' = []" by (simp add: new_links_def)
  moreover note extracted_links_failed [OF True]
  moreover from f(3) have "requests w' = requests w @ [GET (URL_URL urlRecord)]" by simp
  moreover from f(2) have "Crawl_Status crawl' \<noteq> ''completed''" by simp
  ultimately show ?thesis by simp
next
  case False
  from not_fetch_failed [OF False] obtain resp doc where
    ok: "http_Get e (requests w) (URL_URL urlRecord) = Inr resp"
      "Resp_StatusCode resp < 400" "html_Parse e (Resp_Body resp) = Inr doc"
    by blast
  obtain data log where
    ex: "extractData e doc (URL_URL urlRecord) (requests w @ [GET (URL_URL urlRecord)]) = (data, log)"
    by (cases "extractData e doc (URL_URL urlRecord) (requests w @ [GET (URL_URL urlRecord)])") auto
  have el: "extracted_links e urlRecord w = Links data"
    by (rule extracted_links_completed [OF ok ex])
  define u1 where "u1 = urlRecord\<lparr>URL_Title := Title data, URL_HTMLVersion := HTMLVersion data,
                URL_HasLoginForm := HasLoginForm data\<rparr>"
  define c1 where "c1 = crawl\<lparr>Crawl_InternalLinks := InternalLinks data,
                Crawl_ExternalLinks := ExternalLinks data,
                Crawl_BrokenLinks := BrokenLinks data,
                Crawl_HeadingCounts := json_Marshal_HeadingCounts (HeadingCounts data),
                Crawl_Status := ''completed''\<rparr>"
  define w1 where "w1 = w\<lparr>db := save_links (URL_ID urlRecord) (Crawl_ID crawl) (Links data) (db w),
                requests := log\<rparr>"
  from performCrawl_completed [OF ok ex, of crawl] assms
  have d: "performCrawl_deferred e u1 c1 w1 = (urlRecord', crawl', w')"
    by (simp add: u1_def c1_def w1_def)
  note f = performCrawl_deferred_facts [OF d]
  from save_links_rows [OF extractData_ids [OF ex], of "URL_ID urlRecord" "Crawl_ID crawl" "db w"]
  obtain rows where rows: "tbl_links (db w1) = tbl_links (db w) @ rows"
    "map (\<lambda>l. l\<lparr>Link_ID := 0\<rparr>) rows =
       map (\<lambda>l. l\<lparr>Link_URLID := URL_ID urlRecord, Link_CrawlID := Crawl_ID crawl,
                  IsAccessible := True\<rparr>) (Links data)"
    by (auto simp: w1_def)
  from f(4) rows(1) have nl: "new_links w w' = rows" by (simp add: new_links_def)
  have view: "map link_view rows = map link_view (Links data)"
    by (rule saved_rows_view(1) [OF rows(2)])
  have internal: "list_all (\<lambda>l. LinkType l = ''internal'' \<longrightarrow> StatusCode l = 200 \<and> IsAccessible l)
      (Links data)"
    by (rule extractData_internal [OF ex])
  from broken_external [OF internal] extractData_counts_aux [OF ex]
  have broken: "BrokenLinks data
      = int (length (filter (\<lambda>l. \<not> IsAccessible l)
          (filter (\<lambda>l. LinkType l \<noteq> ''internal'') (Links data))))"
    by simp
  from f(3) extractData_log [OF ex] have
    "requests w' = requests w @ GET (URL_URL urlRecord)
        # map (\<lambda>l. HEAD (LinkURL l)) (filter (\<lambda>l. LinkType l \<noteq> ''internal'') (Links data))"
    by (simp add: w1_def)
  moreover from f(2) broken have "Crawl_BrokenLinks crawl'
      = int (length (filter (\<lambda>l. \<not> IsAccessible l)
          (filter (\<lambda>l. LinkType l \<noteq> ''internal'') (Links data))))"
    by (simp add: c1_def)
  ultimately show ?thesis using internal nl view el by simp
qed

theorem C3_requests_of_a_crawl_witness:
  "requests (snd (snd (performCrawl sample_env sample_url sample_crawl sample_world))) =
     [GET ''https://example.com'', HEAD ''https://external.com'', HEAD ''https://external.com/old''] \<and>
   map (\<lambda>l. (LinkType l, StatusCode l, IsAccessible l))
     (extracted_links sample_env sample_url sample_world) =
     [(''internal'', 200, True), (''external'', 200, True), (''external'', 404, False)] \<and>
   Crawl_BrokenLinks (fst (snd (performCrawl sample_env sample_url sample_crawl sample_world))) = 1"
proof -
  let ?w' = "snd (snd (performCrawl sample_env sample_url sample_crawl sample_world))"
  let ?c' = "fst (snd (performCrawl sample_env sample_url sample_crawl sample_world))"
  let ?ls = "extracted_links sample_env sample_url sample_world"
  have heads: "map (\<lambda>l. HEAD (LinkURL l)) (filter (\<lambda>l. LinkType l \<noteq> ''internal'') ?ls) =
      [HEAD ''https://external.com'', HEAD ''https://external.com/old'']"
    by code_simp
  have types: "map (\<lambda>l. (LinkType l, StatusCode l, IsAccessible l)) ?ls =
      [(''internal'', 200, True), (''external'', 200, True), (''external'', 404, False)]"
    by code_simp
  have broken: "int (length (filter (\<lambda>l. \<not> IsAccessible l)
        (filter (\<lambda>l. LinkType l \<noteq> ''internal'') ?ls))) = 1"
    by code_simp
  have st: "Crawl_Status ?c' = ''completed''"
    by code_simp
  have start: "requests sample_world = []" "URL_URL sample_url = ''https://example.com''"
    by (simp_all add: sample_world_def sample_url_def)
  from C3_requests_of_a_crawl [OF sample_run]
  have "requests ?w' = requests sample_world @ GET (URL_URL sample_url)
          # map (\<lambda>l. HEAD (LinkURL l)) (filter (\<lambda>l. LinkType l \<noteq> ''internal'') ?ls)"
    and "Crawl_Status ?c' = ''completed'' \<longrightarrow> Crawl_BrokenLinks ?c'
          = int (length (filter (\<lambda>l. \<not> IsAccessible l)
              (filter (\<lambda>l. LinkType l \<noteq> ''internal'') ?ls)))"
    by (simp_all add: Let_def)
  with heads types broken st start show ?thesis by simp
qed

section \<open>Failed and completed crawls\<close>

text \<open>
  C4. If the HTTP GET fails, the response status code is 400 or greater, or HTML parsing
  fails, then the crawl row is marked with status "error" and a non-empty error message,
  the URL row's status is set to "error", and nothing else happens: the other fields of
  the URL record (title, HTML version, login-form flag) are as they were, no link row is
  created and no further request is made.
\<close>

theorem C4_error_crawl:
  assumes "fetch_failed e urlRecord w"
    and "performCrawl e urlRecord crawl w = (urlRecord', crawl', w')"
  shows "Crawl_Status crawl' = ''error'' \<and> Crawl_ErrorMessage crawl' \<noteq> [] \<and>
         find (\<lambda>r. Crawl_ID r = Crawl_ID crawl) (tbl_crawls (db w')) = Some crawl' \<and>
         urlRecord' = urlRecord\<lparr>URL_Status := ''error''\<rparr> \<and>
         find (\<lambda>r. URL_ID r = URL_ID urlRecord) (tbl_urls (db w')) = Some urlRecord' \<and>
         tbl_links (db w') = tbl_links (db w) \<and>
         requests w' = requests w @ [GET (URL_URL urlRecord)]"
proof -
  from performCrawl_failed [OF assms(1), of crawl] obtain msg where
    msg: "msg \<noteq> []" and
    pc: "performCrawl e urlRecord crawl w =
           performCrawl_deferred e urlRecord
             (crawl\<lparr>Crawl_Status := ''error'', Crawl_ErrorMessage := msg\<rparr>)
             (w\<lparr>requests := requests w @ [GET (URL_URL urlRecord)]\<rparr>)"
    by blast
  from pc assms(2) have d: "performCrawl_deferred e urlRecord
             (crawl\<lparr>Crawl_Status := ''error'', Crawl_ErrorMessage := msg\<rparr>)
             (w\<lparr>requests := requests w @ [GET (URL_URL urlRecord)]\<rparr>) = (urlRecord', crawl', w')"
    by simp
  note f = performCrawl_deferred_facts [OF d]
  from f(2) msg have "Crawl_Status crawl' = ''error''" "Crawl_ErrorMessage crawl' \<noteq> []" by simp_all
  moreover from f(6) have "find (\<lambda>r. Crawl_ID r = Crawl_ID crawl) (tbl_crawls (db w')) = Some crawl'" by simp
  moreover from f(1) have "urlRecord' = urlRecord\<lparr>URL_Status := ''error''\<rparr>" by simp
  moreover note f(5)
  moreover from f(4) have "tbl_links (db w') = tbl_links (db w)" by simp
  moreover from f(3) have "requests w' = requests w @ [GET (URL_URL urlRecord)]" by simp
  ultimately show ?thesis by simp
qed

theorem C4_error_crawl_witness:
  "fetch_failed sample_env gone_url sample_world \<and>
   Crawl_Status (fst (snd (performCrawl sample_env gone_url sample_crawl sample_world))) = ''error'' \<and>
   Crawl_ErrorMessage (fst (snd (performCrawl sample_env gone_url sample_crawl sample_world)))
     = ''HTTP 404: 404 Not Found'' \<and>
   fst (performCrawl sample_env gone_url sample_crawl sample_world)
     = gone_url\<lparr>URL_Status := ''error''\<rparr> \<and>
   tbl_links (db (snd (snd (performCrawl sample_env gone_url sample_crawl sample_world)))) = []"
proof -
  have ff: "fetch_failed sample_env gone_url sample_world" by code_simp
  have msg: "Crawl_ErrorMessage (fst (snd (performCrawl sample_env gone_url sample_crawl sample_world)))
     = ''HTTP 404: 404 Not Found''" by code_simp
  have l0: "tbl_links (db sample_world) = []" by (simp add: sample_world_def)
  from C4_error_crawl [OF ff gone_run] ff msg l0 show ?thesis by simp
qed

text \<open>
  C5. For every crawl that completes without a fetch, HTTP-status or parse error, the
  crawl is marked "completed" and the extracted metadata is stored: the URL row receives
  the page title (and the HTML version and the login-form flag), the crawl row receives
  the heading counts as a JSON string and the internal, external and broken link counts,
  and every extracted link is saved, in order, as a row carrying that URL's ID and that
  crawl's ID. The row has the link's other fields, but for the flag \<open>IsAccessible\<close>, which
  the store sets for every row (the column's default).
\<close>

theorem C5_completed_crawl:
  assumes "http_Get e (requests w) (URL_URL urlRecord) = Inr resp"
    and "Resp_StatusCode resp < 400"
    and "html_Parse e (Resp_Body resp) = Inr doc"
    and "extractData e doc (URL_URL urlRecord) (requests w @ [GET (URL_URL urlRecord)]) = (data, log)"
    and "performCrawl e urlRecord crawl w = (urlRecord', crawl', w')"
  shows "Crawl_Status crawl' = ''completed'' \<and> URL_Status urlRecord' = ''completed'' \<and>
         URL_Title urlRecord' = Title data \<and>
         URL_HTMLVersion urlRecord' = HTMLVersion data \<and>
         URL_HasLoginForm urlRecord' = HasLoginForm data \<and>
         Crawl_HeadingCounts crawl' = json_Marshal_HeadingCounts (HeadingCounts data) \<and>
         Crawl_InternalLinks crawl' = InternalLinks data \<and>
         Crawl_ExternalLinks crawl' = ExternalLinks data \<and>
         Crawl_BrokenLinks crawl' = BrokenLinks data \<and>
         find (\<lambda>r. URL_ID r = URL_ID urlRecord) (tbl_urls (db w')) = Some urlRecord' \<and>
         find (\<lambda>r. Crawl_ID r = Crawl_ID crawl) (tbl_crawls (db w')) = Some crawl' \<and>
         tbl_links (db w') = tbl_links (db w) @ new_links w w' \<and>
         length (new_links w w') = length (Links data) \<and>
         list_all (\<lambda>l. Link_URLID l = URL_ID urlRecord \<and> Link_CrawlID l = Crawl_ID crawl)
           (new_links w w') \<and>
         map (\<lambda>l. l\<lparr>Link_ID := 0\<rparr>) (new_links w w') =
           map (\<lambda>l. l\<lparr>Link_URLID := URL_ID urlRecord, Link_CrawlID := Crawl_ID crawl,
                      IsAccessible := True\<rparr>) (Links data)"
proof -
  define u1 where "u1 = urlRecord\<lparr>URL_Title := Title data, URL_HTMLVersion := HTMLVersion data,
                URL_HasLoginForm := HasLoginForm data\<rparr>"
  define c1 where "c1 = crawl\<lparr>Crawl_InternalLinks := InternalLinks data,
                Crawl_ExternalLinks := ExternalLinks data,
                Crawl_BrokenLinks := BrokenLinks data,
                Crawl_HeadingCounts := json_Marshal_HeadingCounts (HeadingCounts data),
                Crawl_Status := ''completed''\<rparr>"
  define w1 where "w1 = w\<lparr>db := save_links (URL_ID urlRecord) (Crawl_ID crawl) (Links data) (db w),
                requests := log\<rparr>"
  from performCrawl_completed [OF assms(1-4), of crawl] assms(5)
  have d: "performCrawl_deferred e u1 c1 w1 = (urlRecord', crawl', w')"
    by (simp add: u1_def c1_def w1_def)
  note f = performCrawl_deferred_facts [OF d]
  from save_links_rows [OF extractData_ids [OF assms(4)], of "URL_ID urlRecord" "Crawl_ID crawl" "db w"]
  obtain rows where rows: "tbl_links (db w1) = tbl_links (db w) @ rows"
    "map (\<lambda>l. l\<lparr>Link_ID := 0\<rparr>) rows =
       map (\<lambda>l. l\<lparr>Link_URLID := URL_ID urlRecord, Link_CrawlID := Crawl_ID crawl,
                  IsAccessible := True\<rparr>) (Links data)"
    by (auto simp: w1_def)
  from f(4) rows(1) have tl: "tbl_links (db w') = tbl_links (db w) @ rows" by simp
  then have nl: "new_links w w' = rows" by (simp add: new_links_def)
  from rows(2) have "length (map (\<lambda>l. l\<lparr>Link_ID := 0\<rparr>) rows) =
      length (map (\<lambda>l. l\<lparr>Link_URLID := URL_ID urlRecord, Link_CrawlID := Crawl_ID crawl,
                  IsAccessible := True\<rparr>) (Links data))"
    by (rule arg_cong)
  then have len: "length rows = length (Links data)" by simp
  from saved_rows_view(2) [OF rows(2)]
  have ids: "list_all (\<lambda>l. Link_URLID l = URL_ID urlRecord \<and> Link_CrawlID l = Crawl_ID crawl) rows"
    by (simp add: list_all_iff)
  from f(2) have "Crawl_Status crawl' = ''completed''"
    "Crawl_HeadingCounts crawl' = json_Marshal_HeadingCounts (HeadingCounts data)"
    "Crawl_InternalLinks crawl' = InternalLinks data"
    "Crawl_ExternalLinks crawl' = ExternalLinks data"
    "Crawl_BrokenLinks crawl' = BrokenLinks data"
    by (simp_all add: c1_def)
  moreover from f(1) have "URL_Status urlRecord' = ''completed''" "URL_Title urlRecord' = Title data"
    "URL_HTMLVersion urlRecord' = HTMLVersion data" "URL_HasLoginForm urlRecord' = HasLoginForm data"
    by (simp_all add: u1_def c1_def)
  moreover from f(5) have "find (\<lambda>r. URL_ID r = URL_ID urlRecord) (tbl_urls (db w')) = Some urlRecord'"
    by (simp add: u1_def)
  moreover from f(6) have "find (\<lambda>r. Crawl_ID r = Crawl_ID crawl) (tbl_crawls (db w')) = Some crawl'"
    by (simp add: c1_def)
  ultimately show ?thesis using tl nl rows(2) len ids by simp
qed

theorem C5_completed_crawl_witness:
  "Crawl_Status (fst (snd (performCrawl sample_env sample_url sample_crawl sample_world)))
     = ''completed'' \<and>
   URL_Title (fst (performCrawl sample_env sample_url sample_crawl sample_world)) = ''Test Page'' \<and>
   Crawl_HeadingCounts (fst (snd (performCrawl sample_env sample_url sample_crawl sample_world)))
     = json_Marshal_HeadingCounts \<lparr>H1 = 1, H2 = 1, H3 = 1, H4 = 0, H5 = 0, H6 = 0\<rparr> \<and>
   map (\<lambda>l. (Link_URLID l, Link_CrawlID l, LinkURL l, IsAccessible l))
     (tbl_links (db (snd (snd (performCrawl sample_env sample_url sample_crawl sample_world)))))
     = [(1, 1, ''https://example.com/internal'', True), (1, 1, ''https://external.com'', True),
        (1, 1, ''https://external.com/old'', True)]"
proof -
  let ?resp = "\<lparr>Resp_StatusCode = 200, Resp_Status = ''200 OK'', Resp_Body = ''index''\<rparr>"
  let ?data = "fst (extractData sample_env sample_doc ''https://example.com'' [GET ''https://example.com''])"
  let ?log = "snd (extractData sample_env sample_doc ''https://example.com'' [GET ''https://example.com''])"
  have h1: "http_Get sample_env (requests sample_world) (URL_URL sample_url) = Inr ?resp"
    by code_simp
  have h2: "Resp_StatusCode ?resp < 400" by simp
  have h3: "html_Parse sample_env (Resp_Body ?resp) = Inr sample_doc" by code_simp
  have start: "requests sample_world = []" "URL_URL sample_url = ''https://example.com''"
    "URL_ID sample_url = 1" "Crawl_ID sample_crawl = 1" "tbl_links (db sample_world) = []"
    by (simp_all add: sample_world_def sample_url_def sample_crawl_def)
  have h4: "extractData sample_env sample_doc (URL_URL sample_url)
              (requests sample_world @ [GET (URL_URL sample_url)]) = (?data, ?log)"
    by (simp add: start)
  have title: "Title ?data = ''Test Page''" by code_simp
  have hc: "HeadingCounts ?data = \<lparr>H1 = 1, H2 = 1, H3 = 1, H4 = 0, H5 = 0, H6 = 0\<rparr>" by code_simp
  have ls: "map LinkURL (Links ?data)
     = [''https://example.com/internal'', ''https://external.com'', ''https://external.com/old'']"
    by code_simp
  note c5 = C5_completed_crawl [OF h1 h2 h3 h4 sample_run]
  let ?w' = "snd (snd (performCrawl sample_env sample_url sample_crawl sample_world))"
  let ?k = "\<lambda>l. (Link_URLID l, Link_CrawlID l, LinkURL l, IsAccessible l)"
  from c5 have rows: "tbl_links (db ?w') = new_links sample_world ?w'"
    and m: "map (\<lambda>l. l\<lparr>Link_ID := 0\<rparr>) (new_links sample_world ?w') =
           map (\<lambda>l. l\<lparr>Link_URLID := 1, Link_CrawlID := 1, IsAccessible := True\<rparr>) (Links ?data)"
    by (simp_all add: start)
  from m have "map ?k (map (\<lambda>l. l\<lparr>Link_ID := 0\<rparr>) (new_links sample_world ?w'))
      = map ?k (map (\<lambda>l. l\<lparr>Link_URLID := 1, Link_CrawlID := 1, IsAccessible := True\<rparr>)
          (Links ?data))"
    by simp
  then have "map ?k (new_links sample_world ?w')
      = map (\<lambda>u. (1, 1, u, True)) (map LinkURL (Links ?data))"
    by (simp add: comp_def)
  with ls rows have "map ?k (tbl_links (db ?w'))
     = [(1, 1, ''https://example.com/internal'', True), (1, 1, ''https://external.com'', True),
        (1, 1, ''https://external.com/old'', True)]"
    by simp
  with c5 title hc show ?thesis by simp
qed

section \<open>The traversal\<close>

lemma traverse_fold:
  "traverseHTML e n d b = foldl (\<lambda>d m. visitNode e m d b) d (preorder n)"
  "traverseChildren e cs d b = foldl (\<lambda>d m. visitNode e m d b) d (preorders cs)"
  by (induction e n d b and e cs d b rule: traverseHTML_traverseChildren.induct) simp_all

lemma drop_eq_Cons:
  assumes "c # cs = drop i xs"
  shows "i < length xs" and "xs ! i = c" and "cs = drop (Suc i) xs"
proof -
  show i: "i < length xs"
  proof (rule ccontr)
    assume "\<not> i < length xs"
    then have "drop i xs = []" by simp
    with assms show False by simp
  qed
  from Cons_nth_drop_Suc [OF i] assms have "xs ! i # drop (Suc i) xs = c # cs" by simp
  then show "xs ! i = c" and "cs = drop (Suc i) xs" by simp_all
qed

lemma node_at_positions:
  "map (node_at n) (positions n) = map Some (preorder n)"
  "cs = drop i all \<Longrightarrow>
     map (\<lambda>p. node_at (Node ty d attrs all) p) (positions_from i cs) = map Some (preorders cs)"
proof (induction n and i cs arbitrary: and ty d attrs all rule: positions_positions_from.induct)
  case (1 ty' d' attrs' cs)
  from "1"(1) [of cs ty' d' attrs'] show ?case by simp
next
  case (2 i)
  show ?case by simp
next
  case (3 i c cs)
  note i = drop_eq_Cons(1) [OF "3.prems"] and c = drop_eq_Cons(2) [OF "3.prems"]
    and cs = drop_eq_Cons(3) [OF "3.prems"]
  have "map (\<lambda>p. node_at (Node ty d attrs all) p) (map ((#) i) (positions c))
      = map (node_at c) (positions c)"
    using i c by simp
  with "3.IH"(1) "3.IH"(2) [OF cs] show ?case by simp
qed


lemma positions_distinct:
  "distinct (positions n)"
  "distinct (positions_from i cs) \<and> (\<forall>p \<in> set (positions_from i cs). \<exists>j q. p = j # q \<and> i \<le> j)"
proof (induction n and i cs rule: positions_positions_from.induct)
  case (1 ty d attrs cs)
  then show ?case by auto
next
  case (2 i)
  show ?case by simp
next
  case (3 i c cs)
  have d1: "distinct (map ((#) i) (positions c))"
    using "3.IH"(1) by (simp add: distinct_map inj_on_def)
  have disj: "set (map ((#) i) (positions c)) \<inter> set (positions_from (Suc i) cs) = {}"
    using "3.IH"(2) by fastforce
  have heads: "\<forall>p \<in> set (positions_from (Suc i) cs). \<exists>j q. p = j # q \<and> i \<le> j"
    using "3.IH"(2) by fastforce
  from d1 disj heads "3.IH"(2) show ?case by auto
qed

lemma positions_complete:
  "set (positions n) = {p. node_at n p \<noteq> None}"
  "cs = drop i all \<Longrightarrow>
     set (positions_from i cs) =
       {p. \<exists>j q. p = j # q \<and> i \<le> j \<and> node_at (Node ty d attrs all) p \<noteq> None}"
proof (induction n and i cs arbitrary: and ty d attrs all rule: positions_positions_from.induct)
  case (1 ty' d' attrs' cs)
  have "{p. node_at (Node ty' d' attrs' cs) p \<noteq> None}
      = insert [] {p. \<exists>j q. p = j # q \<and> 0 \<le> j \<and> node_at (Node ty' d' attrs' cs) p \<noteq> None}"
  proof (rule set_eqI)
    fix p show "p \<in> {p. node_at (Node ty' d' attrs' cs) p \<noteq> None} \<longleftrightarrow>
      p \<in> insert [] {p. \<exists>j q. p = j # q \<and> 0 \<le> j \<and> node_at (Node ty' d' attrs' cs) p \<noteq> None}"
      by (cases p) auto
  qed
  with "1"(1) [of cs ty' d' attrs'] show ?case by simp
next
  case (2 i)
  then have "length all \<le> i" by simp
  then show ?case by auto
next
  case (3 i c cs)
  note i = drop_eq_Cons(1) [OF "3.prems"] and c = drop_eq_Cons(2) [OF "3.prems"]
    and cs = drop_eq_Cons(3) [OF "3.prems"]
  have a: "set (map ((#) i) (positions c)) = {p. \<exists>q. p = i # q \<and> node_at (Node ty d attrs all) p \<noteq> None}"
    using "3.IH"(1) i c by auto
  have b: "set (positions_from (Suc i) cs) =
       {p. \<exists>j q. p = j # q \<and> Suc i \<le> j \<and> node_at (Node ty d attrs all) p \<noteq> None}"
    by (rule "3.IH"(2) [OF cs])
  have "{p. \<exists>j q. p = j # q \<and> i \<le> j \<and> node_at (Node ty d attrs all) p \<noteq> None}
      = {p. \<exists>q. p = i # q \<and> node_at (Node ty d attrs all) p \<noteq> None}
        \<union> {p. \<exists>j q. p = j # q \<and> Suc i \<le> j \<and> node_at (Node ty d attrs all) p \<noteq> None}"
  proof (rule set_eqI)
    fix p
    show "p \<in> {p. \<exists>j q. p = j # q \<and> i \<le> j \<and> node_at (Node ty d attrs all) p \<noteq> None} \<longleftrightarrow>
      p \<in> {p. \<exists>q. p = i # q \<and> node_at (Node ty d attrs all) p \<noteq> None}
        \<union> {p. \<exists>j q. p = j # q \<and> Suc i \<le> j \<and> node_at (Node ty d attrs all) p \<noteq> None}"
    proof (cases p)
      case Nil
      then show ?thesis by simp
    next
      case (Cons j q)
      then show ?thesis by (cases "j = i") auto
    qed
  qed
  with a b show ?case by simp
qed

lemma processLink_headings: "HeadingCounts (processLink e n d b) = HeadingCounts d"
  by (simp add: processLink_def Let_def split: sum.splits)

lemma visitNode_headings:
  "H1 (HeadingCounts (visitNode e n d b)) = H1 (HeadingCounts d) + (if is_element ''h1'' n then 1 else 0)"
  "H2 (HeadingCounts (visitNode e n d b)) = H2 (HeadingCounts d) + (if is_element ''h2'' n then 1 else 0)"
  "H3 (HeadingCounts (visitNode e n d b)) = H3 (HeadingCounts d) + (if is_element ''h3'' n then 1 else 0)"
  "H4 (HeadingCounts (visitNode e n d b)) = H4 (HeadingCounts d) + (if is_element ''h4'' n then 1 else 0)"
  "H5 (HeadingCounts (visitNode e n d b)) = H5 (HeadingCounts d) + (if is_element ''h5'' n then 1 else 0)"
  "H6 (HeadingCounts (visitNode e n d b)) = H6 (HeadingCounts d) + (if is_element ''h6'' n then 1 else 0)"
  by (simp_all add: visitNode_def is_element_def processLink_headings checkLoginForm_def
      detectHTMLVersion_def split: list.splits)

lemma fold_visit_headings:
  "H1 (HeadingCounts (foldl (\<lambda>d m. visitNode e m d b) d ns))
     = H1 (HeadingCounts d) + int (length (filter (is_element ''h1'') ns))"
  "H2 (HeadingCounts (foldl (\<lambda>d m. visitNode e m d b) d ns))
     = H2 (HeadingCounts d) + int (length (filter (is_element ''h2'') ns))"
  "H3 (HeadingCounts (foldl (\<lambda>d m. visitNode e m d b) d ns))
     = H3 (HeadingCounts d) + int (length (filter (is_element ''h3'') ns))"
  "H4 (HeadingCounts (foldl (\<lambda>d m. visitNode e m d b) d ns))
     = H4 (HeadingCounts d) + int (length (filter (is_element ''h4'') ns))"
  "H5 (HeadingCounts (foldl (\<lambda>d m. visitNode e m d b) d ns))
     = H5 (HeadingCounts d) + int (length (filter (is_element ''h5'') ns))"
  "H6 (HeadingCounts (foldl (\<lambda>d m. visitNode e m d b) d ns))
     = H6 (HeadingCounts d) + int (length (filter (is_element ''h6'') ns))"
  by (induction ns arbitrary: d; simp add: visitNode_headings)+

text \<open>
  C7. Data extraction is a single-pass traversal. \<open>traverseHTML\<close> is a total function on
  finite trees (its termination is proved where it is defined), and it visits each node
  exactly once: it applies \<open>visitNode\<close> to the nodes in document order, and these are the
  nodes at the positions of the tree, each position once and none left out. Each
  heading counter (h1 through h6) grows by one per matching element.
\<close>

theorem C7_single_pass:
  "traverseHTML e n data baseURL = foldl (\<lambda>d m. visitNode e m d baseURL) data (preorder n) \<and>
   map (node_at n) (positions n) = map Some (preorder n) \<and>
   distinct (positions n) \<and>
   set (positions n) = {p. node_at n p \<noteq> None} \<and>
   H1 (HeadingCounts (traverseHTML e n data baseURL))
     = H1 (HeadingCounts data) + int (length (filter (is_element ''h1'') (preorder n))) \<and>
   H2 (HeadingCounts (traverseHTML e n data baseURL))
     = H2 (HeadingCounts data) + int (length (filter (is_element ''h2'') (preorder n))) \<and>
   H3 (HeadingCounts (traverseHTML e n data baseURL))
     = H3 (HeadingCounts data) + int (length (filter (is_element ''h3'') (preorder n))) \<and>
   H4 (HeadingCounts (traverseHTML e n data baseURL))
     = H4 (HeadingCounts data) + int (length (filter (is_element ''h4'') (preorder n))) \<and>
   H5 (HeadingCounts (traverseHTML e n data baseURL))
     = H5 (HeadingCounts data) + int (length (filter (is_element ''h5'') (preorder n))) \<and>
   H6 (HeadingCounts (traverseHTML e n data baseURL))
     = H6 (HeadingCounts data) + int (length (filter (is_element ''h6'') (preorder n)))"
  using traverse_fold(1) [of e n data baseURL] node_at_positions(1) [of n]
    positions_distinct(1) [of n] positions_complete(1) [of n]
    fold_visit_headings [of e baseURL data "preorder n"]
  by simp

section \<open>Submitting a URL that exists\<close>

lemma strings_Contains_prefix: "strings_Contains (sub @ b) sub"
proof (cases "sub @ b")
  case Nil
  then show ?thesis by simp
next
  case (Cons c s)
  have "take (length sub) (sub @ b) = sub" by simp
  then have "strings_Contains (sub @ b) sub" unfolding Cons by simp
  then show ?thesis .
qed

lemma strings_Contains_append: "strings_Contains (a @ sub @ b) sub"
proof (induction a)
  case Nil
  show ?case using strings_Contains_prefix [of sub b] by simp
next
  case (Cons c a)
  then show ?case by simp
qed

lemma duplicate_error_recognised:
  "strings_Contains (duplicate_error drv url) ''Duplicate entry''
   \<or> strings_Contains (duplicate_error drv url) ''UNIQUE constraint failed''"
proof (cases drv)
  case MySQL
  have "strings_Contains (''Error 1062 (23000): '' @ ''Duplicate entry'' @
      ('' '' @ [CHR 0x27] @ url @ [CHR 0x27] @ '' for key '' @ [CHR 0x27] @ ''urls.url'' @ [CHR 0x27]))
      ''Duplicate entry''"
    by (rule strings_Contains_append)
  with MySQL show ?thesis by (simp add: duplicate_error_def)
next
  case SQLite
  have "strings_Contains ([] @ ''UNIQUE constraint failed'' @ '': urls.url'') ''UNIQUE constraint failed''"
    by (rule strings_Contains_append)
  with SQLite show ?thesis by (simp add: duplicate_error_def)
qed

text \<open>
  C9. Submitting a URL string that already exists in the urls table, soft-deleted or
  not, never returns a duplicate-key error to the caller: \<open>CreateURL\<close> clears the existing
  row's deletion timestamp if set, resets its status to "pending", starts a new crawl for
  it (one goroutine), and returns the existing record.
\<close>

theorem C9_existing_url:
  assumes "db_Unscoped_First_by_url d url = Some r"
  shows "CreateURL drv url d =
           (Inr (r\<lparr>URL_DeletedAt := None, URL_Status := ''pending''\<rparr>),
            db_Save_URL d (r\<lparr>URL_DeletedAt := None, URL_Status := ''pending''\<rparr>),
            [Go_StartCrawl (URL_ID r)]) \<and>
         find (\<lambda>x. URL_ID x = URL_ID r)
           (tbl_urls (db_Save_URL d (r\<lparr>URL_DeletedAt := None, URL_Status := ''pending''\<rparr>)))
           = Some (r\<lparr>URL_DeletedAt := None, URL_Status := ''pending''\<rparr>)"
proof -
  let ?new = "\<lparr>URL_ID = 0, URL_URL = url, URL_Title = [], URL_HTMLVersion = [],
               URL_Status = ''pending'', URL_HasLoginForm = False, URL_DeletedAt = None\<rparr>"
  let ?r' = "r\<lparr>URL_DeletedAt := None, URL_Status := ''pending''\<rparr>"
  from assms have "find (\<lambda>x. URL_URL x = url) (tbl_urls d) = Some r"
    by (simp add: db_Unscoped_First_by_url_def)
  then have "\<exists>x \<in> set (tbl_urls d). URL_URL x = url"
    by (auto simp: find_Some_iff)
  then have "list_ex (\<lambda>x. URL_URL x = URL_URL ?new) (tbl_urls d)"
    by (simp add: list_ex_iff)
  then have cr: "db_Create_URL drv d ?new = Inl (duplicate_error drv url)"
    by (simp add: db_Create_URL_def)
  note dup = duplicate_error_recognised [of drv url]
  have "CreateURL drv url d = (Inr ?r', db_Save_URL d ?r', [Go_StartCrawl (URL_ID r)])"
  proof (cases "URL_DeletedAt r = None")
    case True
    then have idem: "r\<lparr>URL_DeletedAt := None\<rparr> = r" by (cases r) simp
    from cr dup assms True show ?thesis
      by (simp add: CreateURL_def Let_def idem)
  next
    case False
    with cr dup assms show ?thesis
      by (simp add: CreateURL_def Let_def)
  qed
  moreover have "find (\<lambda>x. URL_ID x = URL_ID r) (tbl_urls (db_Save_URL d ?r')) = Some ?r'"
    using find_save_row [of URL_ID ?r' "tbl_urls d"] by (simp add: db_Save_URL_def)
  ultimately show ?thesis by simp
qed

theorem C9_existing_url_witness:
  "db_Unscoped_First_by_url deleted_db ''https://example.com''
     = Some (sample_url\<lparr>URL_DeletedAt := Some 2000\<rparr>) \<and>
   fst (CreateURL MySQL ''https://example.com'' deleted_db) = Inr sample_url \<and>
   tbl_urls (fst (snd (CreateURL MySQL ''https://example.com'' deleted_db))) = [sample_url] \<and>
   snd (snd (CreateURL MySQL ''https://example.com'' deleted_db)) = [Go_StartCrawl 1]"
proof -
  have h: "db_Unscoped_First_by_url deleted_db ''https://example.com''
     = Some (sample_url\<lparr>URL_DeletedAt := Some 2000\<rparr>)"
    by code_simp
  have r: "sample_url\<lparr>URL_DeletedAt := Some 2000\<rparr>\<lparr>URL_DeletedAt := None, URL_Status := ''pending''\<rparr>
      = sample_url"
    by (simp add: sample_url_def)
  have s: "tbl_urls (db_Save_URL deleted_db sample_url) = [sample_url]" by code_simp
  have i: "URL_ID sample_url = 1" by (simp add: sample_url_def)
  from C9_existing_url [OF h, of MySQL] h r s i show ?thesis by simp
qed

section \<open>Parameters of the listing\<close>

text \<open>
  C10. For every request to the URL-listing endpoint, the parameters passed to the query
  layer are sanitized: the limit is in the range 1 to 100 (20 when absent, non-numeric,
  non-positive or above 100), the offset is non-negative (0 otherwise), the sort column
  is one of the six whitelisted column names (\<open>updated_at\<close> otherwise), and the sort order
  is "asc" or "desc" ("desc" otherwise). \<open>strconv.Atoi\<close> is any function that reads "20"
  as 20 and "0" as 0.
\<close>

theorem C10_sanitized_parameters:
  assumes "atoi ''20'' = Some 20" and "atoi ''0'' = Some 0"
  shows "(let p = GetURLs_params atoi q in
            1 \<le> p_limit p \<and> p_limit p \<le> 100 \<and> 0 \<le> p_offset p \<and>
            p_sortBy p \<in> {''url'', ''title'', ''status'', ''html_version'', ''created_at'',
                           ''updated_at''} \<and>
            p_sortOrder p \<in> {''asc'', ''desc''} \<and>
            p_limit p =
              (case q ''limit'' of
                 None \<Rightarrow> 20
               | Some s \<Rightarrow>
                   (case atoi s of
                      None \<Rightarrow> 20
                    | Some n \<Rightarrow> if 1 \<le> n \<and> n \<le> 100 then n else 20)) \<and>
            p_offset p =
              (case q ''offset'' of
                 None \<Rightarrow> 0
               | Some s \<Rightarrow> (case atoi s of None \<Rightarrow> 0 | Some n \<Rightarrow> if 0 \<le> n then n else 0)) \<and>
            p_sortBy p =
              (case q ''sortBy'' of
                 None \<Rightarrow> ''updated_at''
               | Some s \<Rightarrow> if s \<in> set validSortColumns then s else ''updated_at'') \<and>
            p_sortOrder p =
              (case q ''sortOrder'' of
                 None \<Rightarrow> ''desc''
               | Some s \<Rightarrow> if s = ''asc'' \<or> s = ''desc'' then s else ''desc''))"
proof -
  define p where "p = GetURLs_params atoi q"
  have limit: "p_limit p =
              (case q ''limit'' of
                 None \<Rightarrow> 20
               | Some s \<Rightarrow>
                   (case atoi s of
                      None \<Rightarrow> 20
                    | Some n \<Rightarrow> if 1 \<le> n \<and> n \<le> 100 then n else 20))"
    using assms(1)
    by (auto simp: p_def GetURLs_params_def DefaultQuery_def Let_def split: option.splits)
  have offset: "p_offset p =
              (case q ''offset'' of
                 None \<Rightarrow> 0
               | Some s \<Rightarrow> (case atoi s of None \<Rightarrow> 0 | Some n \<Rightarrow> if 0 \<le> n then n else 0))"
    using assms(2)
    by (auto simp: p_def GetURLs_params_def DefaultQuery_def Let_def split: option.splits)
  have sortBy: "p_sortBy p =
              (case q ''sortBy'' of
                 None \<Rightarrow> ''updated_at''
               | Some s \<Rightarrow> if s \<in> set validSortColumns then s else ''updated_at'')"
    by (simp add: p_def GetURLs_params_def DefaultQuery_def Let_def validSortColumns_def
        split: option.splits)
  have sortOrder: "p_sortOrder p =
              (case q ''sortOrder'' of
                 None \<Rightarrow> ''desc''
               | Some s \<Rightarrow> if s = ''asc'' \<or> s = ''desc'' then s else ''desc'')"
    by (simp add: p_def GetURLs_params_def DefaultQuery_def Let_def split: option.splits)
  from limit have r1: "1 \<le> p_limit p \<and> p_limit p \<le> 100" by (simp split: option.splits)
  from offset have r2: "0 \<le> p_offset p" by (simp split: option.splits)
  from sortBy have r3: "p_sortBy p \<in> {''url'', ''title'', ''status'', ''html_version'', ''created_at'',
                           ''updated_at''}"
    by (simp add: validSortColumns_def split: option.splits if_splits)
  from sortOrder have r4: "p_sortOrder p \<in> {''asc'', ''desc''}"
    by (simp split: option.splits if_splits)
  from limit offset sortBy sortOrder r1 r2 r3 r4 show ?thesis
    unfolding p_def [symmetric] Let_def by blast
qed

theorem C10_sanitized_parameters_witness:
  "strconv_Atoi ''20'' = Some 20 \<and> strconv_Atoi ''0'' = Some 0 \<and>
   GetURLs_params strconv_Atoi hostile_query =
     \<lparr>p_limit = 20, p_offset = 0, p_search = [], p_status = [], p_sortBy = ''updated_at'',
      p_sortOrder = ''desc''\<rparr> \<and>
   p_limit (GetURLs_params strconv_Atoi (map_of [(''limit'', ''50''), (''sortOrder'', ''asc'')])) = 50 \<and>
   1 \<le> p_limit (GetURLs_params strconv_Atoi hostile_query) \<and>
   p_limit (GetURLs_params strconv_Atoi hostile_query) \<le> 100"
proof -
  have a: "strconv_Atoi ''20'' = Some 20" by code_simp
  have b: "strconv_Atoi ''0'' = Some 0" by code_simp
  have c: "GetURLs_params strconv_Atoi hostile_query =
     \<lparr>p_limit = 20, p_offset = 0, p_search = [], p_status = [], p_sortBy = ''updated_at'',
      p_sortOrder = ''desc''\<rparr>" by code_simp
  have d: "p_limit (GetURLs_params strconv_Atoi (map_of [(''limit'', ''50''), (''sortOrder'', ''asc'')])) = 50"
    by code_simp
  from C10_sanitized_parameters [OF a b, of hostile_query]
  have "1 \<le> p_limit (GetURLs_params strconv_Atoi hostile_query) \<and>
        p_limit (GetURLs_params strconv_Atoi hostile_query) \<le> 100"
    by (simp add: Let_def)
  with a b c d show ?thesis by simp
qed

section \<open>Soft deletion\<close>

text \<open>
  C6, as amended. Of the four tables, users and urls carry a soft-delete timestamp, in
  the models and in the migrations alike, and deleting a row of either is a soft delete:
  \<open>DeleteURL\<close> removes no row of any table. The tables crawls and links carry no such
  timestamp, and gorm deletes their rows physically.
\<close>

theorem C6_soft_delete_tables:
  "(has_DeletedAt t \<longleftrightarrow> t = T_users \<or> t = T_urls) \<and>
   (has_deleted_at_column t \<longleftrightarrow> t = T_users \<or> t = T_urls) \<and>
   (gorm_Delete t = SoftDelete \<longleftrightarrow> t = T_users \<or> t = T_urls) \<and>
   map URL_ID (tbl_urls (DeleteURL urlID now d)) = map URL_ID (tbl_urls d) \<and>
   tbl_crawls (DeleteURL urlID now d) = tbl_crawls d \<and>
   tbl_links (DeleteURL urlID now d) = tbl_links d"
proof -
  have "has_DeletedAt t \<longleftrightarrow> t = T_users \<or> t = T_urls"
    by (cases t) (simp_all add: has_DeletedAt_def model_fields_def)
  moreover have "has_deleted_at_column t \<longleftrightarrow> t = T_users \<or> t = T_urls"
    by (cases t) (simp_all add: has_deleted_at_column_def migration_columns_def)
  moreover have "gorm_Delete t = SoftDelete \<longleftrightarrow> t = T_users \<or> t = T_urls"
    by (cases t) (simp_all add: gorm_Delete_def has_DeletedAt_def model_fields_def)
  moreover have "map URL_ID (tbl_urls (DeleteURL urlID now d)) = map URL_ID (tbl_urls d)"
    by (simp add: DeleteURL_def comp_def if_distrib cong: if_cong)
  ultimately show ?thesis by (simp add: DeleteURL_def)
qed

text \<open>
  C6 as stated fails for two of the four tables: neither \<open>Crawl\<close> nor \<open>Link\<close> has a
  \<open>DeletedAt\<close> field, and neither \<open>CREATE TABLE\<close> statement has a \<open>deleted_at\<close> column.
\<close>

theorem C6_counterexample:
  "\<not> has_DeletedAt T_crawls \<and> \<not> has_deleted_at_column T_crawls \<and>
   gorm_Delete T_crawls = PhysicalDelete \<and>
   \<not> has_DeletedAt T_links \<and> \<not> has_deleted_at_column T_links \<and>
   gorm_Delete T_links = PhysicalDelete"
  by code_simp

end
